theory Spec2Isabelle
  imports Complex_Main
begin

section \<open>Text and bytes\<close>

text \<open>
  A Python \<^verbatim>\<open>str\<close> is a sequence of Unicode code points and is modelled as a list of
  natural numbers; a Python \<^verbatim>\<open>bytes\<close> value is a list of 8-bit characters, that is an
  Isabelle \<^typ>\<open>string\<close>.  \<open>ustr\<close> reads an ASCII literal as text.
\<close>

type_synonym ustring = "nat list"

definition ustr :: "string \<Rightarrow> ustring" where
  "ustr s = map of_char s"

text \<open>
  The characters for which \<^verbatim>\<open>str.isspace\<close> holds.  \<^verbatim>\<open>str.strip()\<close> and the \<^verbatim>\<open>\s\<close> class of
  \<^verbatim>\<open>re\<close> on \<^verbatim>\<open>str\<close> patterns use the same set.
\<close>

definition isspace :: "nat \<Rightarrow> bool" where
  "isspace c \<longleftrightarrow>
     (0x09 \<le> c \<and> c \<le> 0x0D) \<or> (0x1C \<le> c \<and> c \<le> 0x20) \<or> c = 0x85 \<or> c = 0xA0 \<or>
     c = 0x1680 \<or> (0x2000 \<le> c \<and> c \<le> 0x200A) \<or> c = 0x2028 \<or> c = 0x2029 \<or>
     c = 0x202F \<or> c = 0x205F \<or> c = 0x3000"

text \<open>\<^verbatim>\<open>s.strip()\<close>: whitespace removed at both ends.\<close>

definition strip :: "ustring \<Rightarrow> ustring" where
  "strip s = rev (dropWhile isspace (rev (dropWhile isspace s)))"

text \<open>\<^verbatim>\<open>re.sub(r'\s+', ' ', s)\<close>: every maximal run of whitespace becomes one space.\<close>

function re_sub_ws :: "ustring \<Rightarrow> ustring" where
  "re_sub_ws [] = []"
| "re_sub_ws (c # cs) =
     (if isspace c then 0x20 # re_sub_ws (dropWhile isspace cs) else c # re_sub_ws cs)"
  by pat_completeness auto
termination
  by (relation "measure length") (auto simp: le_imp_less_Suc length_dropWhile_le)

text \<open>\<^verbatim>\<open>s.replace(a, b)\<close> for single characters \<open>a\<close> and \<open>b\<close>.\<close>

definition replace_char :: "nat \<Rightarrow> nat \<Rightarrow> ustring \<Rightarrow> ustring" where
  "replace_char a b s = map (\<lambda>c. if c = a then b else c) s"

section \<open>Table extraction: cell text\<close>

text \<open>
  \<^verbatim>\<open>ElectionHTMLParser._clean_text\<close>: the empty text is returned at once; otherwise the
  text is stripped, whitespace runs are collapsed, and line feeds and carriage returns are
  replaced by spaces.
\<close>

definition clean_text :: "ustring \<Rightarrow> ustring" where
  "clean_text text =
     (if text = [] then []
      else replace_char 0x0D 0x20 (replace_char 0x0A 0x20 (re_sub_ws (strip text))))"

text \<open>Two neighbouring whitespace characters somewhere in a text.\<close>

fun has_ws_pair :: "ustring \<Rightarrow> bool" where
  "has_ws_pair (a # b # cs) = (isspace a \<and> isspace b \<or> has_ws_pair (b # cs))"
| "has_ws_pair _ = False"

text \<open>
  The normal form of cleaned text: every whitespace character is a plain space, no two
  whitespace characters are neighbours, and the text does not end in whitespace.
\<close>

definition nf :: "ustring \<Rightarrow> bool" where
  "nf t \<longleftrightarrow> (\<forall>c\<in>set t. isspace c \<longrightarrow> c = 0x20) \<and> \<not> has_ws_pair t \<and>
     (t \<noteq> [] \<longrightarrow> \<not> isspace (last t))"

section \<open>Exceptions\<close>

text \<open>
  The exceptions the modelled code raises or meets.  A function that may raise returns
  \<open>exn + 'a\<close>, with \<open>Inl\<close> for the exception.  \<open>RequestException\<close> stands for every
  exception of \<^verbatim>\<open>requests.exceptions\<close> and carries the failure: one of the transport, or
  the HTTP error status that \<^verbatim>\<open>raise_for_status\<close> turns into an exception.  Two more
  failures tell what the transport adapter has to know: \<open>ReadFailure\<close> is a failure of
  the transport after the request was sent (the connection broke, or no answer came in
  time), where \<open>TransportFailure\<close> is any other, such as a connection that was not
  established; \<open>ResponseError\<close> is the \<^verbatim>\<open>RetryError\<close> of an adapter that has used up its
  retries on responses with the given status.
  \<open>ElectionCrawlerError\<close> is the crawler's own exception; it carries the exception that
  its message quotes, where it quotes one.  \<^verbatim>\<open>UnicodeDecodeError\<close> is a \<^verbatim>\<open>ValueError\<close> in
  Python, which \<open>is_ValueError\<close> records.
\<close>

datatype failure =
    TransportFailure ustring
  | ReadFailure ustring
  | HTTPError nat
  | ResponseError nat

datatype exn =
    ValueError
  | UnicodeDecodeError
  | KeyError
  | TypeError
  | AttributeError
  | IndexError
  | OSError
  | RequestException failure
  | ElectionCrawlerError "exn option"

definition is_ValueError :: "exn \<Rightarrow> bool" where
  "is_ValueError e \<longleftrightarrow> e = ValueError \<or> e = UnicodeDecodeError"

definition is_RequestException :: "exn \<Rightarrow> bool" where
  "is_RequestException e = (case e of RequestException _ \<Rightarrow> True | _ \<Rightarrow> False)"

section \<open>Table extraction: headers and data rows\<close>

text \<open>
  What \<^verbatim>\<open>int(...)\<close> makes of an attribute of a table cell: the attribute is missing (the
  code then takes the default 1), its text is an integer literal, or it is anything else,
  on which \<^verbatim>\<open>int\<close> raises \<^verbatim>\<open>ValueError\<close>.
\<close>

datatype attr = Missing | IntText int | OtherText

definition int_attr :: "attr \<Rightarrow> exn + int" where
  "int_attr a = (case a of Missing \<Rightarrow> Inr 1 | IntText k \<Rightarrow> Inr k | OtherText \<Rightarrow> Inl ValueError)"

text \<open>A \<^verbatim>\<open>th\<close> or \<^verbatim>\<open>td\<close> element: the result of \<^verbatim>\<open>get_text()\<close> and its two span attributes.\<close>

record cell =
  cell_text :: ustring
  colspan :: attr
  rowspan :: attr

text \<open>
  A table as the parser looks at it: the \<^verbatim>\<open>tr\<close> rows of its \<^verbatim>\<open>thead\<close> and of its
  \<^verbatim>\<open>tbody\<close>, where it has them, and all its \<^verbatim>\<open>tr\<close> rows; a row is the list of its cells.
\<close>

record table =
  thead :: "cell list list option"
  tbody :: "cell list list option"
  trs :: "cell list list"

text \<open>Python's slices \<^verbatim>\<open>xs[:k]\<close> and \<^verbatim>\<open>xs[k:]\<close>; a negative \<open>k\<close> counts from the end.\<close>

definition slice_to :: "int \<Rightarrow> 'a list \<Rightarrow> 'a list" where
  "slice_to k xs = (if 0 \<le> k then take (nat k) xs else take (length xs - nat (- k)) xs)"

definition slice_from :: "int \<Rightarrow> 'a list \<Rightarrow> 'a list" where
  "slice_from k xs = (if 0 \<le> k then drop (nat k) xs else drop (length xs - nat (- k)) xs)"

text \<open>The label of the composite column of per-candidate vote counts.\<close>

definition candidate_votes_label :: ustring where
  "candidate_votes_label = [0xD6C4, 0xBCF4, 0xC790, 0xBCC4, 0x20, 0xB4DD, 0xD45C, 0xC218]"

definition label :: "cell \<Rightarrow> ustring" where
  "label c = clean_text (cell_text c)"

text \<open>
  The loop of \<^verbatim>\<open>_extract_headers\<close> over the cells of the first header row.  Its state is
  the list \<open>headers\<close> built so far and what is left of \<open>second_row\<close>.
\<close>

fun first_row_loop :: "ustring list \<Rightarrow> cell list \<Rightarrow> cell list \<Rightarrow> exn + (ustring list \<times> cell list)" where
  "first_row_loop headers second_row [] = Inr (headers, second_row)"
| "first_row_loop headers second_row (c # cs) =
     (let text = label c in
      case int_attr (colspan c) of Inl e \<Rightarrow> Inl e | Inr cspan \<Rightarrow>
      case int_attr (rowspan c) of Inl e \<Rightarrow> Inl e | Inr rspan \<Rightarrow>
        if rspan = 2 then first_row_loop (headers @ [text]) second_row cs
        else if text = candidate_votes_label then
          first_row_loop (headers @ map label (slice_to cspan second_row))
            (slice_from cspan second_row) cs
        else first_row_loop (headers @ [text]) second_row cs)"

definition header_rows :: "table \<Rightarrow> cell list list" where
  "header_rows t = (case thead t of Some rs \<Rightarrow> rs | None \<Rightarrow> take 2 (trs t))"

text \<open>\<^verbatim>\<open>ElectionHTMLParser._extract_headers\<close>.\<close>

definition extract_headers :: "table \<Rightarrow> exn + ustring list" where
  "extract_headers t =
     (case header_rows t of
        first_row # second_row # _ \<Rightarrow>
          (case first_row_loop [] second_row first_row of
             Inl e \<Rightarrow> Inl e
           | Inr (headers, rest) \<Rightarrow> Inr (headers @ map label rest))
      | [header_cells] \<Rightarrow> Inr (map label header_cells)
      | [] \<Rightarrow> Inl IndexError)"

text \<open>
  Header reconstruction as the specification words it: a cell of row span 2 is emitted
  once, a cell of row span 1 with the composite label and column span \<open>k\<close> is replaced by
  the next \<open>k\<close> labels of the second row, any other label is emitted as it is, and the
  unconsumed labels of the second row follow.
\<close>

definition span :: "attr \<Rightarrow> int" where
  "span a = (case a of IntText k \<Rightarrow> k | _ \<Rightarrow> 1)"

fun spec_headers :: "cell list \<Rightarrow> ustring list \<Rightarrow> ustring list" where
  "spec_headers [] queue = queue"
| "spec_headers (c # cs) queue =
     (if span (rowspan c) = 2 then label c # spec_headers cs queue
      else if span (rowspan c) = 1 \<and> label c = candidate_votes_label then
        take (nat (span (colspan c))) queue @ spec_headers cs (drop (nat (span (colspan c))) queue)
      else label c # spec_headers cs queue)"

text \<open>
  The first-row cells on which the code and the specification's wording can be compared:
  both span attributes are missing or integer literals, and a cell with the composite
  label that does not span both rows has row span 1 and a column span that is a count.
\<close>

definition spans_ok :: "cell \<Rightarrow> bool" where
  "spans_ok c \<longleftrightarrow>
     colspan c \<noteq> OtherText \<and> rowspan c \<noteq> OtherText \<and>
     (label c = candidate_votes_label \<and> span (rowspan c) \<noteq> 2 \<longrightarrow>
        span (rowspan c) = 1 \<and> 0 \<le> span (colspan c))"

text \<open>\<^verbatim>\<open>str(n)\<close> for a natural number, and the key \<^verbatim>\<open>f'Extra_Column_{i}'\<close>.\<close>

function decimal :: "nat \<Rightarrow> ustring" where
  "decimal n = (if n < 10 then [0x30 + n] else decimal (n div 10) @ [0x30 + n mod 10])"
  by pat_completeness auto
termination
  by (relation "measure id") auto

definition extra_key :: "nat \<Rightarrow> ustring" where
  "extra_key i = ustr ''Extra_Column_'' @ decimal i"

text \<open>
  The body of the row loop of \<^verbatim>\<open>_extract_data_rows\<close>: the cells are written into the
  dictionary \<open>row_data\<close> by position, then every header that is not yet a key is added
  with the empty text.
\<close>

fun map_cells :: "ustring list \<Rightarrow> nat \<Rightarrow> cell list \<Rightarrow> (ustring \<rightharpoonup> ustring) \<Rightarrow> (ustring \<rightharpoonup> ustring)" where
  "map_cells headers i [] row_data = row_data"
| "map_cells headers i (c # cs) row_data =
     map_cells headers (Suc i) cs
       (if i < length headers then row_data(headers ! i \<mapsto> label c)
        else row_data(extra_key i \<mapsto> label c))"

fun fill_missing :: "ustring list \<Rightarrow> (ustring \<rightharpoonup> ustring) \<Rightarrow> (ustring \<rightharpoonup> ustring)" where
  "fill_missing [] row_data = row_data"
| "fill_missing (h # hs) row_data =
     fill_missing hs (if h \<in> dom row_data then row_data else row_data(h \<mapsto> []))"

text \<open>The key under which the cell at position \<open>i\<close> is written.\<close>

definition cell_key :: "ustring list \<Rightarrow> nat \<Rightarrow> ustring" where
  "cell_key headers i = (if i < length headers then headers ! i else extra_key i)"

definition row_record :: "ustring list \<Rightarrow> cell list \<Rightarrow> (ustring \<rightharpoonup> ustring)" where
  "row_record headers cells = fill_missing headers (map_cells headers 0 cells Map.empty)"

definition data_rows :: "table \<Rightarrow> cell list list" where
  "data_rows t =
     (case tbody t of
        Some rs \<Rightarrow> rs
      | None \<Rightarrow> if length (trs t) > 2 then drop 2 (trs t) else drop 1 (trs t))"

text \<open>\<^verbatim>\<open>ElectionHTMLParser._extract_data_rows\<close>: rows without cells are passed over.\<close>

definition extract_data_rows :: "table \<Rightarrow> ustring list \<Rightarrow> (ustring \<rightharpoonup> ustring) list" where
  "extract_data_rows t headers =
     map (row_record headers) (filter (\<lambda>cells. cells \<noteq> []) (data_rows t))"

text \<open>
  The table of the specification's example: a first header row with a cell spanning both
  rows and the composite label over two columns, and a second row of two cells.
\<close>

definition example_table :: table where
  "example_table = \<lparr>thead = Some
     [[\<lparr>cell_text = ustr ''A'', colspan = Missing, rowspan = IntText 2\<rparr>,
       \<lparr>cell_text = candidate_votes_label, colspan = IntText 2, rowspan = IntText 1\<rparr>],
      [\<lparr>cell_text = ustr ''C'', colspan = Missing, rowspan = Missing\<rparr>,
       \<lparr>cell_text = ustr ''D'', colspan = Missing, rowspan = Missing\<rparr>]],
     tbody = None, trs = []\<rparr>"


text \<open>Reading a decimal numeral back, to see that \<open>decimal\<close> is injective.\<close>

definition undecimal :: "ustring \<Rightarrow> nat" where
  "undecimal ds = foldl (\<lambda>a d. 10 * a + (d - 0x30)) 0 ds"

section \<open>Library functions on text and bytes\<close>

text \<open>\<^verbatim>\<open>s.startswith(p)\<close> and the substring test \<^verbatim>\<open>p in s\<close>.\<close>

definition starts_with :: "'a list \<Rightarrow> 'a list \<Rightarrow> bool" where
  "starts_with p s \<longleftrightarrow> take (length p) s = p"

fun contains :: "'a list \<Rightarrow> 'a list \<Rightarrow> bool" where
  "contains p [] = (p = [])"
| "contains p (c # cs) = (starts_with p (c # cs) \<or> contains p cs)"

text \<open>
  \<^verbatim>\<open>str.lower()\<close>.  ASCII and Latin-1 capitals are mapped to their small letters; the two
  characters outside ASCII whose lower case contains an ASCII letter are mapped as Python
  maps them (U+0130 to \<open>i\<close> followed by U+0307, the Kelvin sign U+212A to \<open>k\<close>).  Every
  other character outside ASCII is kept as it is: Python maps it to characters outside
  ASCII, and the code searches the result for ASCII markers only.
\<close>

definition lower_char :: "nat \<Rightarrow> ustring" where
  "lower_char c =
     (if 0x41 \<le> c \<and> c \<le> 0x5A then [c + 0x20]
      else if 0xC0 \<le> c \<and> c \<le> 0xDE \<and> c \<noteq> 0xD7 then [c + 0x20]
      else if c = 0x130 then [0x69, 0x307]
      else if c = 0x212A then [0x6B]
      else [c])"

definition lower :: "ustring \<Rightarrow> ustring" where
  "lower s = concat (map lower_char s)"

text \<open>
  \<^verbatim>\<open>bytes.decode('utf-8', errors=...)\<close> with the error handlers \<^verbatim>\<open>'ignore'\<close> and
  \<^verbatim>\<open>'replace'\<close>: neither raises.  The decoder is CPython's: an invalid start byte is an
  error of one byte; a lead byte whose continuation is wrong is an error that covers the
  lead byte and the continuation bytes accepted so far; a sequence cut off by the end of
  the input is an error that covers the rest.  The handler puts \<open>rep\<close> in the place of each
  error: nothing for \<^verbatim>\<open>'ignore'\<close>, U+FFFD for \<^verbatim>\<open>'replace'\<close>.  Bytes are given by their values.
\<close>

definition is_cont :: "nat \<Rightarrow> bool" where
  "is_cont b \<longleftrightarrow> 0x80 \<le> b \<and> b < 0xC0"

fun utf8_decode :: "ustring \<Rightarrow> nat list \<Rightarrow> ustring" where
  "utf8_decode rep [] = []"
| "utf8_decode rep (b # bs) =
     (if b < 0x80 then b # utf8_decode rep bs
      else if b < 0xC2 then rep @ utf8_decode rep bs
      else if b < 0xE0 then
        (case bs of
           [] \<Rightarrow> rep
         | b2 # r2 \<Rightarrow>
             if is_cont b2 then ((b - 0xC0) * 0x40 + (b2 - 0x80)) # utf8_decode rep r2
             else rep @ utf8_decode rep bs)
      else if b < 0xF0 then
        (case bs of
           [] \<Rightarrow> rep
         | b2 # r2 \<Rightarrow>
             if \<not> is_cont b2 \<or> (b = 0xE0 \<and> b2 < 0xA0) \<or> (b = 0xED \<and> 0xA0 \<le> b2)
             then rep @ utf8_decode rep bs
             else
               (case r2 of
                  [] \<Rightarrow> rep
                | b3 # r3 \<Rightarrow>
                    if is_cont b3
                    then ((b - 0xE0) * 0x1000 + (b2 - 0x80) * 0x40 + (b3 - 0x80)) # utf8_decode rep r3
                    else rep @ utf8_decode rep r2))
      else if b < 0xF5 then
        (case bs of
           [] \<Rightarrow> rep
         | b2 # r2 \<Rightarrow>
             if \<not> is_cont b2 \<or> (b = 0xF0 \<and> b2 < 0x90) \<or> (b = 0xF4 \<and> 0x90 \<le> b2)
             then rep @ utf8_decode rep bs
             else
               (case r2 of
                  [] \<Rightarrow> rep
                | b3 # r3 \<Rightarrow>
                    if \<not> is_cont b3 then rep @ utf8_decode rep r2
                    else
                      (case r3 of
                         [] \<Rightarrow> rep
                       | b4 # r4 \<Rightarrow>
                           if is_cont b4
                           then ((b - 0xF0) * 0x40000 + (b2 - 0x80) * 0x1000 +
                                 (b3 - 0x80) * 0x40 + (b4 - 0x80)) # utf8_decode rep r4
                           else rep @ utf8_decode rep r3)))
      else rep @ utf8_decode rep bs)"

definition decode_ignore :: "string \<Rightarrow> ustring" where
  "decode_ignore bytes = utf8_decode [] (map of_char bytes)"

definition decode_replace :: "nat list \<Rightarrow> ustring" where
  "decode_replace bytes = utf8_decode [0xFFFD] bytes"

section \<open>The crawler and its environment\<close>

subsection \<open>JSON values\<close>

text \<open>
  What \<^verbatim>\<open>response.json()\<close> returns.  An object is the list of the items of the Python
  dictionary, in order, with distinct keys.  Numbers are integers.
\<close>

datatype json =
    JNull
  | JBool bool
  | JNum int
  | JStr ustring
  | JArr "json list"
  | JObj "(ustring \<times> json) list"

text \<open>
  The Python operations the crawler applies to such a value, each with the exception it
  raises on a value of the wrong type: \<^verbatim>\<open>key in x\<close>, \<^verbatim>\<open>x[key]\<close>, \<^verbatim>\<open>x.get(key)\<close> and
  iteration, for a text \<open>key\<close>.
\<close>

definition py_in :: "ustring \<Rightarrow> json \<Rightarrow> exn + bool" where
  "py_in key x =
     (case x of
        JObj items \<Rightarrow> Inr (map_of items key \<noteq> None)
      | JArr xs \<Rightarrow> Inr (JStr key \<in> set xs)
      | JStr s \<Rightarrow> Inr (contains key s)
      | _ \<Rightarrow> Inl TypeError)"

definition py_getitem :: "json \<Rightarrow> ustring \<Rightarrow> exn + json" where
  "py_getitem x key =
     (case x of
        JObj items \<Rightarrow> (case map_of items key of None \<Rightarrow> Inl KeyError | Some v \<Rightarrow> Inr v)
      | _ \<Rightarrow> Inl TypeError)"

definition py_get :: "json \<Rightarrow> ustring \<Rightarrow> exn + json" where
  "py_get x key =
     (case x of
        JObj items \<Rightarrow> Inr (case map_of items key of None \<Rightarrow> JNull | Some v \<Rightarrow> v)
      | _ \<Rightarrow> Inl AttributeError)"

definition py_iter :: "json \<Rightarrow> exn + json list" where
  "py_iter x =
     (case x of
        JObj items \<Rightarrow> Inr (map (\<lambda>(k, v). JStr k) items)
      | JArr xs \<Rightarrow> Inr xs
      | JStr s \<Rightarrow> Inr (map (\<lambda>c. JStr [c]) s)
      | _ \<Rightarrow> Inl TypeError)"

text \<open>\<^verbatim>\<open>LocationInfo\<close>: the data class does not check the types of its fields.\<close>

record location =
  code :: json
  name :: json

subsection \<open>Requests and responses\<close>

text \<open>An \<^verbatim>\<open>option\<close> element of a selection control, and the two controls of the entry page.\<close>

record select_option =
  option_value :: "ustring option"
  option_text :: ustring

record page =
  city_select :: "select_option list option"
  town_select :: "select_option list option"

text \<open>
  A response: its status, the two headers the crawler reads, and its body.  \<open>body_ok\<close> is
  false when reading the body of a streamed response fails after the bytes \<open>body\<close>.
  \<open>json_body\<close> is what \<^verbatim>\<open>response.json()\<close> makes of the body (\<open>None\<close>: it raises
  \<^verbatim>\<open>ValueError\<close>), and \<open>soup\<close> is what \<^verbatim>\<open>BeautifulSoup\<close> finds in \<^verbatim>\<open>response.text\<close>.
\<close>

record response =
  status_code :: nat
  content_type_header :: "ustring option"
  content_disposition_header :: "ustring option"
  body :: string
  body_ok :: bool
  json_body :: "json option"
  soup :: page

record report_form =
  electionId :: ustring
  statementId :: ustring
  electionCode :: ustring
  cityCode :: json
  townCode :: json
  fTitle :: ustring

datatype request =
    Get_init_page
  | Get_town_codes ustring json
  | Post_report report_form

text \<open>
  What one attempt on the transport does, and what a call of \<^verbatim>\<open>session.request\<close> does: it
  returns a response or raises.
\<close>

datatype outcome = Responds response | Fails exn

subsection \<open>The world\<close>

text \<open>
  The crawler's environment and its mutable state.  \<open>server\<close> tells what the \<open>n\<close>-th
  attempt on the transport does (the request is sent on a connection, and a response or
  an error comes back), \<open>rand\<close> what the \<open>n\<close>-th call of \<^verbatim>\<open>random.random()\<close> returns, and
  \<open>clock\<close> the whole seconds \<^verbatim>\<open>time.time()\<close> shows after \<open>n\<close> events.  \<open>trace\<close> records in
  order the calls of \<^verbatim>\<open>session.request\<close> (\<open>Called\<close>), the attempts on the transport
  (\<open>Sent\<close>) and the calls of \<^verbatim>\<open>time.sleep\<close> (\<open>Slept\<close>), those of the crawler and those of
  the adapter alike.  \<open>files\<close> is the download directory, from file name to content; an
  operation on a \<open>faulty\<close> name raises \<^verbatim>\<open>OSError\<close>.  \<open>stats\<close> is the dictionary
  \<^verbatim>\<open>self.stats\<close>.  Logging is left out.
\<close>

datatype event = Called request | Sent request | Slept rat

record stats =
  downloaded :: nat
  errors :: nat
  skipped :: nat
  total_size :: nat

record world =
  server :: "nat \<Rightarrow> request \<Rightarrow> outcome"
  rand :: "nat \<Rightarrow> rat"
  clock :: "nat \<Rightarrow> nat"
  draws :: nat
  trace :: "event list"
  files :: "ustring \<rightharpoonup> string"
  faulty :: "ustring \<Rightarrow> bool"
  stats :: stats

fun is_call :: "event \<Rightarrow> bool" where
  "is_call (Called _) = True"
| "is_call _ = False"

fun is_send :: "event \<Rightarrow> bool" where
  "is_send (Sent _) = True"
| "is_send _ = False"

definition calls :: "world \<Rightarrow> nat" where
  "calls w = length (filter is_call (trace w))"

definition sends :: "world \<Rightarrow> nat" where
  "sends w = length (filter is_send (trace w))"

text \<open>One attempt on the transport.\<close>

definition send :: "request \<Rightarrow> world \<Rightarrow> outcome \<times> world" where
  "send req w = (server w (sends w) req, w\<lparr>trace := trace w @ [Sent req]\<rparr>)"

definition sleep :: "rat \<Rightarrow> world \<Rightarrow> world" where
  "sleep seconds w = w\<lparr>trace := trace w @ [Slept seconds]\<rparr>"

text \<open>\<^verbatim>\<open>random.uniform(a, b)\<close> is \<^verbatim>\<open>a + (b - a) * random()\<close>.\<close>

definition uniform :: "rat \<Rightarrow> rat \<Rightarrow> world \<Rightarrow> rat \<times> world" where
  "uniform a b w = (a + (b - a) * rand w (draws w), w\<lparr>draws := Suc (draws w)\<rparr>)"

definition time_now :: "world \<Rightarrow> nat" where
  "time_now w = clock w (length (trace w))"

subsection \<open>Configuration\<close>

definition MAX_RETRIES :: nat where "MAX_RETRIES = 3"
definition RETRY_DELAY :: rat where "RETRY_DELAY = 2"
definition BASE_DELAY :: rat where "BASE_DELAY = 1"
definition CITY_DELAY :: rat where "CITY_DELAY = 2"

definition STATEMENT_ID_MAP :: "(ustring \<times> ustring) list" where
  "STATEMENT_ID_MAP =
     [(ustr ''1'', ustr ''VCCP08_#1''), (ustr ''2'', ustr ''VCCP08_#2_1''),
      (ustr ''3'', ustr ''VCCP08_#3''), (ustr ''4'', ustr ''VCCP08_#4''),
      (ustr ''5'', ustr ''VCCP08_#5''), (ustr ''6'', ustr ''VCCP08_#6''),
      (ustr ''7'', ustr ''VCCP08_#7_1''), (ustr ''8'', ustr ''VCCP08_#8''),
      (ustr ''9'', ustr ''VCCP08_#9''), (ustr ''10'', ustr ''VCCP08_#10''),
      (ustr ''11'', ustr ''VCCP08_#11'')]"

text \<open>The fields of the \<^verbatim>\<open>ElectionCrawler\<close> object that do not change.\<close>

record crawler =
  election_id :: ustring
  election_code :: ustring

subsection \<open>The transport adapter\<close>

text \<open>
  \<^verbatim>\<open>_setup_session\<close> mounts, for both schemes, an \<^verbatim>\<open>HTTPAdapter\<close> with
  \<^verbatim>\<open>Retry(total=MAX_RETRIES, backoff_factor=0.3, status_forcelist=[500, 502, 503, 504])\<close>,
  so one call of \<^verbatim>\<open>session.request\<close> may try the transport several times.  What the
  adapter does with this configuration is the behaviour of the libraries \<^verbatim>\<open>requests\<close> and
  \<^verbatim>\<open>urllib3\<close>:

  \<^item> \<^verbatim>\<open>Retry\<close> retries a failure of the transport before or while the connection is
    made for every method; a failure after the request was sent, and a response whose
    status is in the list, only for a method it allows, which \<^verbatim>\<open>GET\<close> is and \<^verbatim>\<open>POST\<close> is
    not.  Any other response is returned and any other exception raised at once.
  \<^item> Every retried failure takes one from \<open>total\<close>; the attempt that would bring it
    below zero is not made, so that a call makes at most \<open>1 + MAX_RETRIES\<close> attempts.
  \<^item> Before the attempt that follows \<open>n\<close> failures it sleeps
    \<open>backoff_factor * 2 ^ (n - 1)\<close> seconds, and not at all after the first failure.
  \<^item> When the retries are used up the call raises an exception of
    \<^verbatim>\<open>requests.exceptions\<close>: the one for the last error of the transport, or \<^verbatim>\<open>RetryError\<close>
    for a response whose status is in the list.

  The seconds are exact rationals.  Redirections and the header \<^verbatim>\<open>Retry-After\<close> are not
  modelled: a response has the two headers the crawler reads.
\<close>

definition status_forcelist :: "nat list" where
  "status_forcelist = [500, 502, 503, 504]"

definition backoff_factor :: rat where
  "backoff_factor = 3 / 10"

fun allowed_method :: "request \<Rightarrow> bool" where
  "allowed_method Get_init_page = True"
| "allowed_method (Get_town_codes _ _) = True"
| "allowed_method (Post_report _) = False"

fun retried_failure :: "request \<Rightarrow> exn \<Rightarrow> bool" where
  "retried_failure req (RequestException (TransportFailure _)) = True"
| "retried_failure req (RequestException (ReadFailure _)) = allowed_method req"
| "retried_failure req _ = False"

definition is_retry :: "request \<Rightarrow> outcome \<Rightarrow> bool" where
  "is_retry req out =
     (case out of
        Fails e \<Rightarrow> retried_failure req e
      | Responds r \<Rightarrow> allowed_method req \<and> status_code r \<in> set status_forcelist)"

definition get_backoff_time :: "nat \<Rightarrow> rat" where
  "get_backoff_time failures =
     (if failures \<le> 1 then 0 else backoff_factor * 2 ^ (failures - 1))"

definition sleep_backoff :: "nat \<Rightarrow> world \<Rightarrow> world" where
  "sleep_backoff failures w =
     (let backoff = get_backoff_time failures in if backoff \<le> 0 then w else sleep backoff w)"

definition exhausted :: "outcome \<Rightarrow> outcome" where
  "exhausted out =
     (case out of
        Fails e \<Rightarrow> Fails e
      | Responds r \<Rightarrow> Fails (RequestException (ResponseError (status_code r))))"

text \<open>
  The adapter's part of a call of \<^verbatim>\<open>session.request\<close>, after \<open>failures\<close> retried failures
  in this call.
\<close>

function adapter_send :: "nat \<Rightarrow> request \<Rightarrow> world \<Rightarrow> outcome \<times> world" where
  "adapter_send failures req w =
     (let (out, w1) = send req w in
      if is_retry req out then
        (if failures < MAX_RETRIES
         then adapter_send (Suc failures) req (sleep_backoff (Suc failures) w1)
         else (exhausted out, w1))
      else (out, w1))"
  by pat_completeness auto
termination
  by (relation "measure (\<lambda>(failures, req, w). MAX_RETRIES - failures)") auto

definition session_request :: "request \<Rightarrow> world \<Rightarrow> outcome \<times> world" where
  "session_request req w = adapter_send 0 req (w\<lparr>trace := trace w @ [Called req]\<rparr>)"

subsection \<open>Requests with retries\<close>

definition raise_for_status :: "response \<Rightarrow> exn + response" where
  "raise_for_status r =
     (if 400 \<le> status_code r \<and> status_code r < 600
      then Inl (RequestException (HTTPError (status_code r))) else Inr r)"

text \<open>
  The body of the \<^verbatim>\<open>try\<close> block of \<^verbatim>\<open>_make_request_with_retry\<close>: before every attempt but
  the first the crawler sleeps, then it calls \<^verbatim>\<open>session.request\<close> and
  \<^verbatim>\<open>raise_for_status\<close>.
\<close>

definition attempt_request :: "nat \<Rightarrow> request \<Rightarrow> world \<Rightarrow> (exn + response) \<times> world" where
  "attempt_request attempt req w =
     (let w1 = (if attempt > 0 then
                  (let (jitter, wj) = uniform (1 / 2) (3 / 2) w;
                       delay = RETRY_DELAY * 2 ^ attempt * jitter
                   in sleep delay wj)
                else w);
          (out, w2) = session_request req w1
      in case out of
           Fails e \<Rightarrow> (Inl e, w2)
         | Responds r \<Rightarrow> (raise_for_status r, w2))"

text \<open>
  \<^verbatim>\<open>_make_request_with_retry\<close>: the loop over \<^verbatim>\<open>range(MAX_RETRIES)\<close>, from \<open>attempt\<close> on.
  Only a \<^verbatim>\<open>RequestException\<close> is caught; after the last attempt it becomes an
  \<^verbatim>\<open>ElectionCrawlerError\<close>.
\<close>

function request_attempts :: "nat \<Rightarrow> request \<Rightarrow> world \<Rightarrow> (exn + response) \<times> world" where
  "request_attempts attempt req w =
     (if attempt < MAX_RETRIES then
        (case attempt_request attempt req w of
           (Inr r, w2) \<Rightarrow> (Inr r, w2)
         | (Inl e, w2) \<Rightarrow>
             if is_RequestException e then
               (if attempt = MAX_RETRIES - 1 then (Inl (ElectionCrawlerError (Some e)), w2)
                else request_attempts (Suc attempt) req w2)
             else (Inl e, w2))
      else (Inl (ElectionCrawlerError None), w))"
  by pat_completeness auto
termination
  by (relation "measure (\<lambda>(attempt, req, w). MAX_RETRIES - attempt)") auto

definition make_request_with_retry :: "request \<Rightarrow> world \<Rightarrow> (exn + response) \<times> world" where
  "make_request_with_retry req w = request_attempts 0 req w"

text \<open>
  The exception with which an attempt ends, if it ends with one, and the attempts that end
  with an exception that \<^verbatim>\<open>_make_request_with_retry\<close> catches: a \<^verbatim>\<open>RequestException\<close> of
  the transport or an HTTP error status.
\<close>

definition raised :: "outcome \<Rightarrow> exn option" where
  "raised out =
     (case out of
        Fails e \<Rightarrow> Some e
      | Responds r \<Rightarrow> (case raise_for_status r of Inl e \<Rightarrow> Some e | Inr _ \<Rightarrow> None))"

definition request_fails :: "outcome \<Rightarrow> bool" where
  "request_fails out = (case raised out of Some e \<Rightarrow> is_RequestException e | None \<Rightarrow> False)"

text \<open>
  A world for examples: the given server and files, every random number a quarter, a fixed
  clock, no faulty file name, nothing done yet.
\<close>

definition example_world :: "(nat \<Rightarrow> request \<Rightarrow> outcome) \<Rightarrow> (ustring \<rightharpoonup> string) \<Rightarrow> world" where
  "example_world srv fs =
     \<lparr>server = srv, rand = (\<lambda>n. 1 / 4), clock = (\<lambda>n. 1700000000), draws = 0, trace = [],
      files = fs, faulty = (\<lambda>p. False),
      stats = \<lparr>downloaded = 0, errors = 0, skipped = 0, total_size = 0\<rparr>\<rparr>"

text \<open>A server that refuses every connection.\<close>

definition refusing :: "nat \<Rightarrow> request \<Rightarrow> outcome" where
  "refusing n req = Fails (RequestException (TransportFailure (ustr ''connection refused'')))"

subsection \<open>Regions and sub-regions\<close>

text \<open>
  The options of a selection control that \<^verbatim>\<open>get_city_town_codes\<close> keeps: those with a
  non-empty value other than \<open>-1\<close>.  A missing control gives no codes.
\<close>

definition select_codes :: "select_option list option \<Rightarrow> location list" where
  "select_codes sel =
     (case sel of
        None \<Rightarrow> []
      | Some options \<Rightarrow>
          List.map_filter
            (\<lambda>opt. case option_value opt of
                     None \<Rightarrow> None
                   | Some v \<Rightarrow>
                       if v \<noteq> [] \<and> v \<noteq> ustr ''-1''
                       then Some \<lparr>code = JStr v, name = JStr (strip (option_text opt))\<rparr>
                       else None)
            options)"

text \<open>
  \<^verbatim>\<open>get_city_town_codes\<close>: every exception of the request becomes an
  \<^verbatim>\<open>ElectionCrawlerError\<close>.
\<close>

definition get_city_town_codes :: "world \<Rightarrow> (exn + location list \<times> location list) \<times> world" where
  "get_city_town_codes w =
     (case make_request_with_retry Get_init_page w of
        (Inl e, w1) \<Rightarrow> (Inl (ElectionCrawlerError (Some e)), w1)
      | (Inr response, w1) \<Rightarrow>
          (Inr (select_codes (city_select (soup response)),
                select_codes (town_select (soup response))), w1))"

text \<open>
  The part of \<^verbatim>\<open>get_town_codes_for_city\<close> that picks the list of towns out of the JSON
  value: the body of the result envelope if there is one, else the value itself.
\<close>

definition town_data_of :: "json \<Rightarrow> exn + json" where
  "town_data_of response_data =
     (case py_in (ustr ''jsonResult'') response_data of
        Inl e \<Rightarrow> Inl e
      | Inr False \<Rightarrow> Inr response_data
      | Inr True \<Rightarrow>
          (case py_getitem response_data (ustr ''jsonResult'') of
             Inl e \<Rightarrow> Inl e
           | Inr json_result \<Rightarrow>
               (case py_in (ustr ''body'') json_result of
                  Inl e \<Rightarrow> Inl e
                | Inr False \<Rightarrow> Inr response_data
                | Inr True \<Rightarrow> py_getitem json_result (ustr ''body''))))"

text \<open>The loop over the items: an item whose \<open>CODE\<close> is not \<open>-1\<close> becomes a location.\<close>

fun town_codes_loop :: "location list \<Rightarrow> json list \<Rightarrow> exn + location list" where
  "town_codes_loop town_codes [] = Inr town_codes"
| "town_codes_loop town_codes (item # items) =
     (case py_get item (ustr ''CODE'') of
        Inl e \<Rightarrow> Inl e
      | Inr c \<Rightarrow>
          if c \<noteq> JStr (ustr ''-1'') then
            (case py_getitem item (ustr ''CODE'') of
               Inl e \<Rightarrow> Inl e
             | Inr item_code \<Rightarrow>
                 (case py_getitem item (ustr ''NAME'') of
                    Inl e \<Rightarrow> Inl e
                  | Inr item_name \<Rightarrow>
                      town_codes_loop (town_codes @ [\<lparr>code = item_code, name = item_name\<rparr>]) items))
          else town_codes_loop town_codes items)"

text \<open>The statements of the \<^verbatim>\<open>try\<close> block that follow the request.\<close>

definition parse_town_codes :: "response \<Rightarrow> exn + location list" where
  "parse_town_codes response =
     (case json_body response of
        None \<Rightarrow> Inl ValueError
      | Some response_data \<Rightarrow>
          (case town_data_of response_data of
             Inl e \<Rightarrow> Inl e
           | Inr town_data \<Rightarrow>
               (case py_iter town_data of
                  Inl e \<Rightarrow> Inl e
                | Inr items \<Rightarrow> town_codes_loop [] items)))"

text \<open>
  \<^verbatim>\<open>get_town_codes_for_city\<close>.  Its handler catches \<^verbatim>\<open>RequestException\<close> and
  \<^verbatim>\<open>ValueError\<close> and returns the empty list; any other exception leaves the function.
\<close>

definition get_town_codes_for_city :: "crawler \<Rightarrow> json \<Rightarrow> world \<Rightarrow> (exn + location list) \<times> world" where
  "get_town_codes_for_city cr city_code w =
     (let (result, w1) =
            (case make_request_with_retry (Get_town_codes (election_id cr) city_code) w of
               (Inl e, w1) \<Rightarrow> (Inl e, w1)
             | (Inr response, w1) \<Rightarrow> (parse_town_codes response, w1))
      in case result of
           Inr town_codes \<Rightarrow> (Inr town_codes, w1)
         | Inl e \<Rightarrow>
             if is_RequestException e \<or> is_ValueError e then (Inr [], w1) else (Inl e, w1))"

section \<open>Content classification and file names\<close>

subsection \<open>More library functions\<close>

text \<open>\<^verbatim>\<open>s.rfind(c)\<close> for a character: the last position of \<open>c\<close>, if it occurs.\<close>

definition rfind :: "'a \<Rightarrow> 'a list \<Rightarrow> nat option" where
  "rfind c s =
     (if c \<in> set s then Some (length s - 1 - length (takeWhile (\<lambda>x. x \<noteq> c) (rev s))) else None)"

text \<open>
  \<^verbatim>\<open>os.path.splitext\<close> (POSIX): the extension starts at the last dot of the last path
  component, unless only dots come before it in that component.
\<close>

definition splitext :: "ustring \<Rightarrow> ustring \<times> ustring" where
  "splitext p =
     (case rfind 0x2E p of
        None \<Rightarrow> (p, [])
      | Some dot \<Rightarrow>
          (let start = (case rfind 0x2F p of None \<Rightarrow> 0 | Some sep \<Rightarrow> Suc sep) in
           if start \<le> dot \<and> (\<exists>c \<in> set (take (dot - start) (drop start p)). c \<noteq> 0x2E)
           then (take dot p, drop dot p) else (p, [])))"

text \<open>
  \<^verbatim>\<open>s.split(p)[1]\<close> for a text \<open>s\<close> that contains \<open>p\<close>: what stands between the first
  occurrence of \<open>p\<close> and the next one.  \<open>None\<close> when \<open>p\<close> does not occur.
\<close>

fun after_first :: "'a list \<Rightarrow> 'a list \<Rightarrow> 'a list option" where
  "after_first p [] = (if p = [] then Some [] else None)"
| "after_first p (c # cs) =
     (if starts_with p (c # cs) then Some (drop (length p) (c # cs)) else after_first p cs)"

fun before_first :: "'a list \<Rightarrow> 'a list \<Rightarrow> 'a list" where
  "before_first p [] = []"
| "before_first p (c # cs) = (if starts_with p (c # cs) then [] else c # before_first p cs)"

definition split_second :: "'a list \<Rightarrow> 'a list \<Rightarrow> 'a list option" where
  "split_second p s = map_option (before_first p) (after_first p s)"

text \<open>\<^verbatim>\<open>s.strip(chars)\<close>.\<close>

definition strip_chars :: "ustring \<Rightarrow> ustring \<Rightarrow> ustring" where
  "strip_chars chars s =
     rev (dropWhile (\<lambda>c. c \<in> set chars) (rev (dropWhile (\<lambda>c. c \<in> set chars) s)))"

text \<open>
  \<^verbatim>\<open>urllib.parse.unquote_plus(s, encoding='utf-8')\<close>.  Every plus sign becomes a space.
  If a percent sign occurs, each maximal run of ASCII characters is unquoted to bytes (a
  percent sign followed by two hexadecimal digits is the byte they name) and the bytes are
  decoded as UTF-8 with the handler \<^verbatim>\<open>'replace'\<close>; characters outside ASCII stay.
\<close>

definition is_hex :: "nat \<Rightarrow> bool" where
  "is_hex c \<longleftrightarrow> (0x30 \<le> c \<and> c \<le> 0x39) \<or> (0x41 \<le> c \<and> c \<le> 0x46) \<or> (0x61 \<le> c \<and> c \<le> 0x66)"

definition hex_value :: "nat \<Rightarrow> nat" where
  "hex_value c = (if c \<le> 0x39 then c - 0x30 else if c \<le> 0x46 then c - 0x37 else c - 0x57)"

fun unquote_to_bytes :: "ustring \<Rightarrow> nat list" where
  "unquote_to_bytes (c # h1 # h2 # cs) =
     (if c = 0x25 \<and> is_hex h1 \<and> is_hex h2
      then (16 * hex_value h1 + hex_value h2) # unquote_to_bytes cs
      else c # unquote_to_bytes (h1 # h2 # cs))"
| "unquote_to_bytes cs = cs"

function unquote_runs :: "ustring \<Rightarrow> ustring" where
  "unquote_runs [] = []"
| "unquote_runs (c # cs) =
     (if c < 0x80 then
        decode_replace (unquote_to_bytes (takeWhile (\<lambda>x. x < 0x80) (c # cs))) @
        unquote_runs (dropWhile (\<lambda>x. x < 0x80) cs)
      else c # unquote_runs cs)"
  by pat_completeness auto
termination
  by (relation "measure length") (auto simp: le_imp_less_Suc length_dropWhile_le)

definition unquote :: "ustring \<Rightarrow> ustring" where
  "unquote s = (if 0x25 \<in> set s then unquote_runs s else s)"

definition unquote_plus :: "ustring \<Rightarrow> ustring" where
  "unquote_plus s = unquote (replace_char 0x2B 0x20 s)"

subsection \<open>The content classifier\<close>

datatype kind = Html | Excel | Unknown

text \<open>
  \<^verbatim>\<open>response.content\<close>: the body, or the exception that reading it raises.
\<close>

definition content :: "response \<Rightarrow> exn + string" where
  "content response =
     (if body_ok response then Inr (body response)
      else Inl (RequestException (TransportFailure (ustr ''incomplete read''))))"

definition html_indicators :: "ustring list" where
  "html_indicators =
     [ustr ''<!doctype html'', ustr ''<html'', ustr ''<head>'', ustr ''<body>'', ustr ''<table'']"

definition OLE2_header :: string where
  "OLE2_header = [CHR 0xD0, CHR 0xCF, CHR 0x11, CHR 0xE0, CHR 0xA1, CHR 0xB1, CHR 0x1A, CHR 0xE1]"

definition ZIP_header :: string where
  "ZIP_header = [CHR ''P'', CHR ''K'', CHR 0x03, CHR 0x04]"

text \<open>
  The \<^verbatim>\<open>try\<close> block of \<^verbatim>\<open>_detect_content_type\<close>: \<open>Some\<close> kind if it returns, \<open>None\<close> if
  control leaves the block at its end.
\<close>

definition inspect_content :: "response \<Rightarrow> exn + kind option" where
  "inspect_content response =
     (case content response of
        Inl e \<Rightarrow> Inl e
      | Inr bytes \<Rightarrow>
          (let content_start = lower (decode_ignore (take 4096 bytes)) in
           if \<exists>indicator \<in> set html_indicators. contains indicator content_start
           then Inr (Some Html)
           else
             (let content_bytes = take 8 bytes in
              if starts_with OLE2_header content_bytes \<or> starts_with ZIP_header content_bytes
              then Inr (Some Excel) else Inr None)))"

text \<open>
  \<^verbatim>\<open>_detect_content_type\<close>.  The handler of the \<^verbatim>\<open>try\<close> block catches
  \<^verbatim>\<open>UnicodeDecodeError\<close> and \<^verbatim>\<open>AttributeError\<close> and answers \<open>excel\<close>.
\<close>

definition detect_content_type :: "response \<Rightarrow> exn + kind" where
  "detect_content_type response =
     (let content_type = lower (case content_type_header response of None \<Rightarrow> [] | Some v \<Rightarrow> v) in
      if contains (ustr ''text/html'') content_type \<or>
         contains (ustr ''application/html'') content_type then Inr Html
      else if contains (ustr ''application/vnd.ms-excel'') content_type \<or>
         contains (ustr ''application/excel'') content_type then Inr Excel
      else
        (case inspect_content response of
           Inr (Some k) \<Rightarrow> Inr k
         | Inr None \<Rightarrow> Inr Unknown
         | Inl e \<Rightarrow> if e = UnicodeDecodeError \<or> e = AttributeError then Inr Excel else Inl e))"

subsection \<open>File names\<close>

text \<open>The characters \<^verbatim>\<open><>:"/\|?*\<close>.\<close>

definition invalid_chars :: ustring where
  "invalid_chars = [0x3C, 0x3E, 0x3A, 0x22, 0x2F, 0x5C, 0x7C, 0x3F, 0x2A]"

text \<open>\<^verbatim>\<open>_sanitize_filename\<close>.\<close>

definition sanitize_filename :: "ustring \<Rightarrow> ustring" where
  "sanitize_filename filename =
     (let filename1 = foldl (\<lambda>f char. replace_char char 0x5F f) filename invalid_chars;
          filename2 = (if length filename1 > 200
                       then (let (name, ext) = splitext filename1 in take 195 name @ ext)
                       else filename1)
      in strip filename2)"

text \<open>\<^verbatim>\<open>sep.join(xs)\<close>.\<close>

fun join :: "'a list \<Rightarrow> 'a list list \<Rightarrow> 'a list" where
  "join sep [] = []"
| "join sep [x] = x"
| "join sep (x # y # ys) = x @ sep @ join sep (y # ys)"

text \<open>
  The text an f-string inserts for a value: a text as it is, the other atoms as \<^verbatim>\<open>str\<close>
  prints them.  Arrays and objects are printed as lists and dictionaries are, but the
  quoting of the texts inside them is simplified (single quotes, no escapes).
\<close>

fun fmt :: "json \<Rightarrow> ustring" and fmt_inner :: "json \<Rightarrow> ustring" where
  "fmt (JStr s) = s"
| "fmt JNull = ustr ''None''"
| "fmt (JBool b) = (if b then ustr ''True'' else ustr ''False'')"
| "fmt (JNum n) = (if n < 0 then 0x2D # decimal (nat (- n)) else decimal (nat n))"
| "fmt (JArr xs) = ustr ''['' @ join (ustr '', '') (map fmt_inner xs) @ ustr '']''"
| "fmt (JObj items) =
     ustr ''{'' @
     join (ustr '', '')
       (map (\<lambda>(k, v). 0x27 # k @ 0x27 # ustr '': '' @ fmt_inner v) items) @
     ustr ''}''"
| "fmt_inner (JStr s) = 0x27 # s @ [0x27]"
| "fmt_inner x = fmt x"

text \<open>
  Whether a byte string is valid UTF-8, that is whether a strict decoder accepts it: no
  error position, so no replacement character appears that is not the encoded U+FFFD.
\<close>

definition decodable :: "string \<Rightarrow> bool" where
  "decodable bytes \<longleftrightarrow>
     utf8_decode [0x110000] (map of_char bytes) = utf8_decode [] (map of_char bytes)"

text \<open>
  The classifier as the specification lists it, with its rule 5: a prefix that cannot be
  decoded as text is a spreadsheet.
\<close>

definition spec_classify :: "ustring \<Rightarrow> string \<Rightarrow> kind" where
  "spec_classify content_type bytes =
     (if contains (ustr ''text/html'') content_type \<or>
         contains (ustr ''application/html'') content_type then Html
      else if contains (ustr ''application/vnd.ms-excel'') content_type \<or>
         contains (ustr ''application/excel'') content_type then Excel
      else if \<exists>indicator \<in> set html_indicators.
           contains indicator (lower (decode_ignore (take 4096 bytes))) then Html
      else if starts_with OLE2_header (take 8 bytes) \<or> starts_with ZIP_header (take 8 bytes)
        then Excel
      else if \<not> decodable (take 4096 bytes) then Excel
      else Unknown)"

text \<open>A response with the given headers and body, read without failure.\<close>

definition example_response :: "ustring option \<Rightarrow> ustring option \<Rightarrow> string \<Rightarrow> response" where
  "example_response ct cd bytes =
     \<lparr>status_code = 200, content_type_header = ct, content_disposition_header = cd,
      body = bytes, body_ok = True, json_body = None,
      soup = \<lparr>city_select = None, town_select = None\<rparr>\<rparr>"

text \<open>
  The base name that \<^verbatim>\<open>_get_filename_from_response\<close> takes from a
  \<^verbatim>\<open>Content-Disposition\<close> header that contains \<open>filename=\<close>: the text after it, without
  quotes at its ends, URL-decoded and sanitized, and without its extension.
\<close>

definition header_base_filename :: "ustring \<Rightarrow> ustring option" where
  "header_base_filename cd =
     (if contains (ustr ''filename='') cd then
        (case split_second (ustr ''filename='') cd of
           None \<Rightarrow> None
         | Some part \<Rightarrow>
             (let filename = strip_chars [0x22, 0x27] part;
                  filename1 = unquote_plus filename;
                  filename2 = sanitize_filename filename1
              in Some (fst (splitext filename2))))
      else None)"

definition fallback_filename :: "json \<Rightarrow> json \<Rightarrow> nat \<Rightarrow> ustring" where
  "fallback_filename city_code town_code timestamp =
     ustr ''election_report_'' @ fmt city_code @ ustr ''_'' @ fmt town_code @ ustr ''_'' @
     decimal timestamp"

definition extension :: "kind \<Rightarrow> ustring" where
  "extension content_type =
     (case content_type of Html \<Rightarrow> ustr ''.html'' | Excel \<Rightarrow> ustr ''.xls'' | Unknown \<Rightarrow> ustr ''.html'')"

text \<open>
  \<^verbatim>\<open>_get_filename_from_response\<close>.  The statements that parse the header are total in this
  model, so the handler around them has nothing to catch.  An empty base name counts as
  none.
\<close>

definition get_filename_from_response :: "response \<Rightarrow> json \<Rightarrow> json \<Rightarrow> world \<Rightarrow> exn + ustring" where
  "get_filename_from_response response city_code town_code w =
     (case detect_content_type response of
        Inl e \<Rightarrow> Inl e
      | Inr content_type \<Rightarrow>
          (let base_filename =
                 (case content_disposition_header response of
                    None \<Rightarrow> None
                  | Some cd \<Rightarrow> header_base_filename cd);
               base_filename1 =
                 (case base_filename of
                    None \<Rightarrow> fallback_filename city_code town_code (time_now w)
                  | Some b \<Rightarrow>
                      if b = [] then fallback_filename city_code town_code (time_now w) else b)
           in Inr (base_filename1 @ extension content_type)))"

section \<open>Downloading\<close>

subsection \<open>Files\<close>

text \<open>
  A path is the file name below the download directory.  \<^verbatim>\<open>Path.exists\<close> and
  \<^verbatim>\<open>Path.stat().st_size\<close>.
\<close>

definition path_exists :: "ustring \<Rightarrow> world \<Rightarrow> exn + bool" where
  "path_exists p w = (if faulty w p then Inl OSError else Inr (files w p \<noteq> None))"

definition st_size :: "ustring \<Rightarrow> world \<Rightarrow> exn + nat" where
  "st_size p w =
     (if faulty w p then Inl OSError
      else case files w p of None \<Rightarrow> Inl OSError | Some bytes \<Rightarrow> Inr (length bytes))"

text \<open>
  \<^verbatim>\<open>PurePath.name\<close>, \<^verbatim>\<open>PurePath.suffix\<close> and \<^verbatim>\<open>PurePath.with_suffix\<close> for the suffixes the
  crawler uses.
\<close>

definition path_name :: "ustring \<Rightarrow> ustring" where
  "path_name p = (case rfind 0x2F p of None \<Rightarrow> p | Some sep \<Rightarrow> drop (Suc sep) p)"

definition path_suffix :: "ustring \<Rightarrow> ustring" where
  "path_suffix p =
     (case rfind 0x2E (path_name p) of
        None \<Rightarrow> []
      | Some i \<Rightarrow> if 0 < i \<and> i < length (path_name p) - 1 then drop i (path_name p) else [])"

definition with_suffix :: "ustring \<Rightarrow> ustring \<Rightarrow> exn + ustring" where
  "with_suffix suffix p =
     (if path_name p = [] then Inl ValueError
      else Inr (take (length p - length (path_suffix p)) p @ suffix))"

text \<open>\<^verbatim>\<open>_validate_file_size\<close>.\<close>

definition validate_file_size :: "ustring \<Rightarrow> world \<Rightarrow> exn + bool" where
  "validate_file_size filepath w =
     (case st_size filepath w of
        Inl e \<Rightarrow> Inl e
      | Inr sz \<Rightarrow> if sz < 512 then Inr False else Inr True)"

text \<open>
  The loop of \<^verbatim>\<open>_file_exists_and_valid\<close> over the alternative extensions: the first
  alternative that exists decides.
\<close>

fun alternatives_loop :: "ustring \<Rightarrow> ustring list \<Rightarrow> world \<Rightarrow> exn + bool" where
  "alternatives_loop base_path [] w = Inr False"
| "alternatives_loop base_path (ext # exts) w =
     (case with_suffix ext base_path of
        Inl e \<Rightarrow> Inl e
      | Inr alt_filepath \<Rightarrow>
          (case path_exists alt_filepath w of
             Inl e \<Rightarrow> Inl e
           | Inr True \<Rightarrow> validate_file_size alt_filepath w
           | Inr False \<Rightarrow> alternatives_loop base_path exts w))"

definition alternative_extensions :: "ustring list" where
  "alternative_extensions = [ustr ''.html'', ustr ''.xls'', ustr ''.xlsx'']"

text \<open>\<^verbatim>\<open>_file_exists_and_valid\<close>.\<close>

definition file_exists_and_valid :: "ustring \<Rightarrow> world \<Rightarrow> exn + bool" where
  "file_exists_and_valid filepath w =
     (case path_exists filepath w of
        Inl e \<Rightarrow> Inl e
      | Inr True \<Rightarrow> validate_file_size filepath w
      | Inr False \<Rightarrow>
          (case with_suffix [] filepath of
             Inl e \<Rightarrow> Inl e
           | Inr base_path \<Rightarrow> alternatives_loop base_path alternative_extensions w))"

text \<open>
  \<^verbatim>\<open>_validate_downloaded_content\<close>.  After the checks of existence and size the function
  only reads the start of the file and logs what it sees; every exception is caught and
  gives \<open>False\<close>.
\<close>

definition validate_downloaded_content :: "ustring \<Rightarrow> world \<Rightarrow> bool" where
  "validate_downloaded_content filepath w =
     (case path_exists filepath w of
        Inl e \<Rightarrow> False
      | Inr False \<Rightarrow> False
      | Inr True \<Rightarrow>
          (case st_size filepath w of
             Inl e \<Rightarrow> False
           | Inr sz \<Rightarrow> if sz < 512 then False else True))"

text \<open>
  The \<^verbatim>\<open>with open(filepath, 'wb')\<close> block: opening creates or empties the file, the chunks
  of the body are written, and the length written is returned.  If reading the body
  fails, what was read is in the file and the exception leaves the block.
\<close>

definition write_response :: "ustring \<Rightarrow> response \<Rightarrow> world \<Rightarrow> (exn + nat) \<times> world" where
  "write_response filepath response w =
     (if faulty w filepath then (Inl OSError, w)
      else
        (let w1 = w\<lparr>files := (files w)(filepath \<mapsto> body response)\<rparr> in
         if body_ok response then (Inr (length (body response)), w1)
         else (Inl (RequestException (TransportFailure (ustr ''incomplete read''))), w1)))"

subsection \<open>The task\<close>

definition count_skipped :: "world \<Rightarrow> world" where
  "count_skipped w = w\<lparr>stats := (stats w)\<lparr>skipped := skipped (stats w) + 1\<rparr>\<rparr>"

definition count_error :: "world \<Rightarrow> world" where
  "count_error w = w\<lparr>stats := (stats w)\<lparr>errors := errors (stats w) + 1\<rparr>\<rparr>"

definition count_downloaded :: "nat \<Rightarrow> world \<Rightarrow> world" where
  "count_downloaded file_size w =
     w\<lparr>stats := (stats w)\<lparr>downloaded := downloaded (stats w) + 1,
                             total_size := total_size (stats w) + file_size\<rparr>\<rparr>"

text \<open>\<^verbatim>\<open>_generate_title\<close>.\<close>

definition generate_title :: "json \<Rightarrow> json \<Rightarrow> ustring" where
  "generate_title city_name town_name =
     [0x5B, 0xC81C, 0x32, 0x31, 0xB300, 0x20, 0xB300, 0xD1B5, 0xB839, 0xC120, 0xAC70, 0x5D] @
     ustr '' ['' @ fmt city_name @ ustr ''] ['' @ fmt town_name @ ustr '']''"

definition report_payload :: "crawler \<Rightarrow> json \<Rightarrow> json \<Rightarrow> json \<Rightarrow> json \<Rightarrow> report_form" where
  "report_payload cr city_code city_name town_code town_name =
     \<lparr>electionId = election_id cr,
      statementId = (case map_of STATEMENT_ID_MAP (election_code cr) of
                       Some s \<Rightarrow> s | None \<Rightarrow> ustr ''VCCP08_#1''),
      electionCode = election_code cr,
      cityCode = city_code, townCode = town_code,
      fTitle = generate_title city_name town_name\<rparr>"

text \<open>
  The \<^verbatim>\<open>try\<close> block of \<^verbatim>\<open>download_excel_for_location\<close>: the value it returns, or the
  exception that leaves it.
\<close>

definition download_attempt :: "report_form \<Rightarrow> json \<Rightarrow> json \<Rightarrow> world \<Rightarrow> (exn + bool) \<times> world" where
  "download_attempt payload city_code town_code w =
     (case make_request_with_retry (Post_report payload) w of
        (Inl e, w1) \<Rightarrow> (Inl e, w1)
      | (Inr response, w1) \<Rightarrow>
          (case get_filename_from_response response city_code town_code w1 of
             Inl e \<Rightarrow> (Inl e, w1)
           | Inr filename \<Rightarrow>
               (case file_exists_and_valid filename w1 of
                  Inl e \<Rightarrow> (Inl e, w1)
                | Inr True \<Rightarrow> (Inr True, count_skipped w1)
                | Inr False \<Rightarrow>
                    (case write_response filename response w1 of
                       (Inl e, w2) \<Rightarrow> (Inl e, w2)
                     | (Inr file_size, w2) \<Rightarrow>
                         if validate_downloaded_content filename w2
                         then (Inr True, count_downloaded file_size w2)
                         else (Inr False, count_error w2)))))"

text \<open>
  \<^verbatim>\<open>download_excel_for_location\<close>: the handler catches every exception, counts an error and
  returns \<open>False\<close>.
\<close>

definition download_excel_for_location ::
  "crawler \<Rightarrow> json \<Rightarrow> json \<Rightarrow> json \<Rightarrow> json \<Rightarrow> world \<Rightarrow> bool \<times> world" where
  "download_excel_for_location cr city_code city_name town_code town_name w =
     (case download_attempt (report_payload cr city_code city_name town_code town_name)
             city_code town_code w of
        (Inr ok, w1) \<Rightarrow> (ok, w1)
      | (Inl e, w1) \<Rightarrow> (False, count_error w1))"

section \<open>The crawl\<close>

text \<open>The inner loop of \<^verbatim>\<open>_crawl_sequential\<close>: one task per town, each followed by a pause.\<close>

fun download_towns :: "crawler \<Rightarrow> location \<Rightarrow> location list \<Rightarrow> world \<Rightarrow> world" where
  "download_towns cr city [] w = w"
| "download_towns cr city (town # towns) w =
     (let (ok, w1) = download_excel_for_location cr (code city) (name city) (code town) (name town) w;
          (jitter, w2) = uniform (- (1 / 5)) (1 / 5) w1
      in download_towns cr city towns (sleep (BASE_DELAY + jitter) w2))"

text \<open>
  The outer loop of \<^verbatim>\<open>_crawl_sequential\<close>, at the \<open>i\<close>-th of \<open>n\<close> cities.  A city without
  towns is passed over; an exception of the lookup leaves the loop.
\<close>

fun crawl_cities :: "crawler \<Rightarrow> nat \<Rightarrow> nat \<Rightarrow> location list \<Rightarrow> world \<Rightarrow> (exn + unit) \<times> world" where
  "crawl_cities cr i n [] w = (Inr (), w)"
| "crawl_cities cr i n (city # cities) w =
     (case get_town_codes_for_city cr (code city) w of
        (Inl e, w1) \<Rightarrow> (Inl e, w1)
      | (Inr town_codes, w1) \<Rightarrow>
          if town_codes = [] then crawl_cities cr (Suc i) n cities w1
          else
            (let w2 = download_towns cr city town_codes w1;
                 w3 = (if i < n then sleep CITY_DELAY w2 else w2)
             in crawl_cities cr (Suc i) n cities w3))"

definition crawl_sequential :: "crawler \<Rightarrow> location list \<Rightarrow> world \<Rightarrow> (exn + unit) \<times> world" where
  "crawl_sequential cr city_codes w = crawl_cities cr 1 (length city_codes) city_codes w"

text \<open>
  \<^verbatim>\<open>crawl_all_locations\<close> in sequential mode: an exception of the region list or of the
  loop is logged and raised again.
\<close>

definition crawl_all_locations :: "crawler \<Rightarrow> world \<Rightarrow> (exn + unit) \<times> world" where
  "crawl_all_locations cr w =
     (case get_city_town_codes w of
        (Inl e, w1) \<Rightarrow> (Inl e, w1)
      | (Inr (city_codes, all_town_codes), w1) \<Rightarrow> crawl_sequential cr city_codes w1)"

section \<open>Definitions for the statements about file names\<close>

text \<open>
  The file name of a \<^verbatim>\<open>Content-Disposition\<close> header: the text after \<open>filename=\<close> without
  quotes at its ends, URL-decoded and sanitized.
\<close>

definition disposition_filename :: "ustring \<Rightarrow> ustring" where
  "disposition_filename cd =
     (case split_second (ustr ''filename='') cd of
        None \<Rightarrow> []
      | Some part \<Rightarrow> sanitize_filename (unquote_plus (strip_chars [0x22, 0x27] part)))"

text \<open>
  The file name as the specification words it: the base is the file name of the header,
  where the header has one, and the fallback name otherwise; the extension follows.
\<close>

definition spec_filename :: "response \<Rightarrow> json \<Rightarrow> json \<Rightarrow> world \<Rightarrow> kind \<Rightarrow> ustring" where
  "spec_filename response city_code town_code w k =
     (case content_disposition_header response of
        None \<Rightarrow> fallback_filename city_code town_code (time_now w)
      | Some cd \<Rightarrow>
          if contains (ustr ''filename='') cd then disposition_filename cd
          else fallback_filename city_code town_code (time_now w)) @
     extension k"

text \<open>The base name the code resolves.\<close>

definition resolved_base :: "response \<Rightarrow> json \<Rightarrow> json \<Rightarrow> world \<Rightarrow> ustring" where
  "resolved_base response city_code town_code w =
     (case content_disposition_header response of
        None \<Rightarrow> fallback_filename city_code town_code (time_now w)
      | Some cd \<Rightarrow>
          if contains (ustr ''filename='') cd \<and> fst (splitext (disposition_filename cd)) \<noteq> []
          then fst (splitext (disposition_filename cd))
          else fallback_filename city_code town_code (time_now w))"

section \<open>Definitions for the statements about downloads\<close>

text \<open>A file of at least 512 bytes at a path.\<close>

definition valid_file :: "world \<Rightarrow> ustring \<Rightarrow> bool" where
  "valid_file w p = (case files w p of None \<Rightarrow> False | Some bytes \<Rightarrow> 512 \<le> length bytes)"

text \<open>The alternative paths that \<^verbatim>\<open>_file_exists_and_valid\<close> looks at, in order.\<close>

definition alternative_paths :: "ustring \<Rightarrow> ustring list" where
  "alternative_paths filepath =
     (case with_suffix [] filepath of
        Inl e \<Rightarrow> []
      | Inr base_path \<Rightarrow>
          concat (map (\<lambda>ext. case with_suffix ext base_path of Inl e \<Rightarrow> [] | Inr p \<Rightarrow> [p])
                    alternative_extensions))"

text \<open>A server that answers every request with the same response.\<close>

definition answering :: "response \<Rightarrow> nat \<Rightarrow> request \<Rightarrow> outcome" where
  "answering r n req = Responds r"

text \<open>
  A server for the crawl: it answers the request for the entry page with the given
  response and refuses every other connection.
\<close>

definition entry_page_only :: "response \<Rightarrow> nat \<Rightarrow> request \<Rightarrow> outcome" where
  "entry_page_only r n req =
     (case req of
        Get_init_page \<Rightarrow> Responds r
      | _ \<Rightarrow> Fails (RequestException (TransportFailure (ustr ''connection refused''))))"

text \<open>
  What a request leaves as it is: the files, the statistics and the oracles of the world.
\<close>

definition same_store :: "world \<Rightarrow> world \<Rightarrow> bool" where
  "same_store w w' \<longleftrightarrow> files w' = files w \<and> stats w' = stats w \<and> faulty w' = faulty w \<and>
     server w' = server w \<and> rand w' = rand w \<and> clock w' = clock w"


text \<open>
  The crawler of the default configuration, a spreadsheet response that names its file
  \<open>report.xls\<close>, and two download directories: one where \<open>report.xls\<close> is too small and
  \<open>report.html\<close> is large enough, one where \<open>report.xls\<close> is large enough.
\<close>

definition example_crawler :: crawler where
  "example_crawler = \<lparr>election_id = ustr ''0020250603'', election_code = ustr ''1''\<rparr>"

definition report_response :: response where
  "report_response =
     example_response (Some (ustr ''application/vnd.ms-excel''))
       (Some (ustr ''attachment; filename=report.xls'')) (replicate 600 (CHR ''y''))"

definition small_target_files :: "ustring \<rightharpoonup> string" where
  "small_target_files =
     [ustr ''report.xls'' \<mapsto> replicate 100 (CHR ''x''),
      ustr ''report.html'' \<mapsto> replicate 600 (CHR ''x'')]"

definition valid_target_files :: "ustring \<rightharpoonup> string" where
  "valid_target_files = [ustr ''report.xls'' \<mapsto> replicate 600 (CHR ''x'')]"

text \<open>
  The response of the specification's end-to-end scenario: a spreadsheet header and a body
  of 608 bytes that starts with the OLE2 signature.
\<close>

definition scenario_response :: response where
  "scenario_response =
     example_response (Some (ustr ''application/vnd.ms-excel'')) None
       (OLE2_header @ replicate 600 (CHR 0x00))"

text \<open>An entry page with the placeholder option and one region.\<close>

definition entry_page :: response where
  "entry_page =
     \<lparr>status_code = 200, content_type_header = Some (ustr ''text/html''),
      content_disposition_header = None, body = [], body_ok = True, json_body = None,
      soup = \<lparr>city_select = Some
                 [\<lparr>option_value = Some (ustr ''-1''), option_text = ustr ''select''\<rparr>,
                  \<lparr>option_value = Some (ustr ''11''), option_text = [0xC11C, 0xC6B8]\<rparr>],
               town_select = None\<rparr>\<rparr>"

section \<open>Definitions for the statements about requests\<close>

text \<open>The sleep of the adapter after so many failures, as the events it leaves.\<close>

definition backoff_events :: "nat \<Rightarrow> event list" where
  "backoff_events failures =
     (if get_backoff_time failures \<le> 0 then [] else [Slept (get_backoff_time failures)])"

text \<open>
  The events of a call of \<^verbatim>\<open>session.request\<close> in which the adapter, after \<open>failures\<close>
  failures, makes \<open>k\<close> more attempts on the transport: the attempts, with the adapter's
  sleep before each but the first.
\<close>

fun adapter_trace :: "request \<Rightarrow> nat \<Rightarrow> nat \<Rightarrow> event list" where
  "adapter_trace req failures 0 = []"
| "adapter_trace req failures (Suc 0) = [Sent req]"
| "adapter_trace req failures (Suc (Suc k)) =
     Sent req # backoff_events (Suc failures) @ adapter_trace req (Suc failures) (Suc k)"

text \<open>
  What the call returns or raises when its last attempt on the transport ends with \<open>out\<close>:
  an outcome that the adapter retries has used up the retries.
\<close>

definition adapter_result :: "request \<Rightarrow> outcome \<Rightarrow> outcome" where
  "adapter_result req out = (if is_retry req out then exhausted out else out)"

text \<open>A response with status 503.\<close>

definition unavailable :: response where
  "unavailable = (example_response None None [])\<lparr>status_code := 503\<rparr>"

text \<open>A response with status 404.\<close>

definition missing :: response where
  "missing = (example_response None None [])\<lparr>status_code := 404\<rparr>"

section \<open>Properties of text cleaning\<close>

lemma re_sub_ws_spaces: "c \<in> set (re_sub_ws s) \<Longrightarrow> isspace c \<Longrightarrow> c = 0x20"
  by (induction s rule: re_sub_ws.induct) (auto split: if_splits)

lemma re_sub_ws_Nil_iff [simp]: "re_sub_ws s = [] \<longleftrightarrow> s = []"
  by (cases s) auto

lemma isspace_hd_re_sub_ws: "s \<noteq> [] \<Longrightarrow> isspace (hd (re_sub_ws s)) = isspace (hd s)"
  by (cases s) (auto simp: isspace_def)

lemma dropWhile_hd: "dropWhile P xs \<noteq> [] \<Longrightarrow> \<not> P (hd (dropWhile P xs))"
  by (metis hd_dropWhile)

lemma re_sub_ws_no_pair: "\<not> has_ws_pair (re_sub_ws s)"
proof (induction s rule: re_sub_ws.induct)
  case 1
  show ?case by simp
next
  case (2 c cs)
  show ?case
  proof (cases "isspace c")
    case True
    let ?r = "dropWhile isspace cs"
    show ?thesis
    proof (cases "?r")
      case Nil
      with True show ?thesis by (simp del: dropWhile_eq_Nil_conv)
    next
      case (Cons d ds)
      then have "\<not> isspace d" using dropWhile_hd [of isspace cs] by simp
      then have "\<not> isspace (hd (re_sub_ws ?r))" using Cons by simp
      moreover have "\<not> has_ws_pair (re_sub_ws ?r)" using 2 True by simp
      ultimately show ?thesis using True Cons by (cases "re_sub_ws ?r") auto
    qed
  next
    case False
    then have "\<not> has_ws_pair (re_sub_ws cs)" using 2 by simp
    with False show ?thesis by (cases "re_sub_ws cs") auto
  qed
qed

lemma isspace_last_re_sub_ws:
  "s \<noteq> [] \<Longrightarrow> \<not> isspace (last s) \<Longrightarrow> \<not> isspace (last (re_sub_ws s))"
proof (induction s rule: re_sub_ws.induct)
  case 1
  then show ?case by simp
next
  case (2 c cs)
  show ?case
  proof (cases "isspace c")
    case True
    then have "cs \<noteq> []" using 2 by auto
    then have l: "last (c # cs) = last cs" by simp
    have "\<not> (\<forall>x\<in>set cs. isspace x)" using 2 l \<open>cs \<noteq> []\<close> by (metis last_in_set)
    then have ne: "dropWhile isspace cs \<noteq> []" by simp
    have "last (dropWhile isspace cs) = last cs" using ne
      by (metis append_Nil2 last_appendR takeWhile_dropWhile_id)
    have "\<not> isspace (last (re_sub_ws (dropWhile isspace cs)))"
      using 2(1) [OF True ne] \<open>last (dropWhile isspace cs) = last cs\<close> 2(4) l by simp
    moreover have "re_sub_ws (dropWhile isspace cs) \<noteq> []" using ne by simp
    ultimately show ?thesis using True by (simp del: dropWhile_eq_Nil_conv)
  next
    case False
    then show ?thesis using 2 by (cases cs) auto
  qed
qed

lemma nf_Cons: "nf (c # cs) \<Longrightarrow> nf cs"
  by (cases cs) (auto simp: nf_def)

lemma re_sub_ws_nf: "nf t \<Longrightarrow> re_sub_ws t = t"
proof (induction t)
  case Nil
  show ?case by simp
next
  case (Cons c cs)
  have IH: "re_sub_ws cs = cs" using Cons nf_Cons by blast
  show ?case
  proof (cases "isspace c")
    case True
    then have c: "c = 0x20" using Cons.prems by (simp add: nf_def)
    have "cs \<noteq> []" using True Cons.prems by (auto simp: nf_def)
    then obtain d ds where cs: "cs = d # ds" by (cases cs) auto
    then have "\<not> isspace d" using True Cons.prems by (auto simp: nf_def)
    then show ?thesis using True c cs IH by simp
  next
    case False
    then show ?thesis using IH by simp
  qed
qed

lemma strip_id: "s = [] \<or> (\<not> isspace (hd s) \<and> \<not> isspace (last s)) \<Longrightarrow> strip s = s"
proof (cases s)
  case Nil
  then show ?thesis by (simp add: strip_def)
next
  case (Cons a as)
  assume "s = [] \<or> (\<not> isspace (hd s) \<and> \<not> isspace (last s))"
  then have h: "\<not> isspace a" and l: "\<not> isspace (last s)" using Cons by auto
  have 1: "dropWhile isspace s = s" using h Cons by simp
  have "s \<noteq> []" using Cons by simp
  then have "rev s = last s # rev (butlast s)"
    by (metis append_butlast_last_id rev.simps(2) rev_append rev_rev_ident append_Cons append_Nil)
  moreover have "dropWhile isspace (last s # rev (butlast s)) = last s # rev (butlast s)"
    using l by simp
  ultimately have "dropWhile isspace (rev s) = rev s" by (simp only:)
  then show ?thesis using 1 by (simp add: strip_def)
qed

lemma strip_ends: "strip s = [] \<or> (\<not> isspace (hd (strip s)) \<and> \<not> isspace (last (strip s)))"
proof (cases "strip s = []")
  case True
  then show ?thesis by simp
next
  case False
  let ?d = "dropWhile isspace s"
  let ?e = "dropWhile isspace (rev ?d)"
  have e: "?e \<noteq> []" using False by (simp add: strip_def)
  have l: "\<not> isspace (last (strip s))"
    using e hd_dropWhile [of isspace "rev ?d"] by (simp add: strip_def last_rev)
  have dne: "?d \<noteq> []" using e by (metis dropWhile.simps(1) rev.simps(1))
  have hd_d: "\<not> isspace (hd ?d)" using dne hd_dropWhile [of isspace s] by blast
  have "rev ?d = takeWhile isspace (rev ?d) @ ?e" by simp
  then have "last (rev ?d) = last ?e" using e by (metis last_appendR)
  then have "last ?e = hd ?d" using dne by (simp add: last_rev)
  then have "hd (strip s) = hd ?d" using e by (simp add: strip_def hd_rev)
  then show ?thesis using hd_d l by simp
qed

lemma clean_text_eq: "clean_text s = re_sub_ws (strip s)"
proof -
  have a: "replace_char 0x0A 0x20 (re_sub_ws (strip s)) = re_sub_ws (strip s)"
    unfolding replace_char_def
    by (rule map_idI) (use re_sub_ws_spaces [of "0x0A" "strip s"] in \<open>auto simp: isspace_def\<close>)
  have b: "replace_char 0x0D 0x20 (re_sub_ws (strip s)) = re_sub_ws (strip s)"
    unfolding replace_char_def
    by (rule map_idI) (use re_sub_ws_spaces [of "0x0D" "strip s"] in \<open>auto simp: isspace_def\<close>)
  show ?thesis
  proof (cases "s = []")
    case True
    then show ?thesis by (simp add: clean_text_def strip_def)
  next
    case False
    then show ?thesis by (simp add: clean_text_def a b)
  qed
qed

lemma clean_text_nf: "nf (clean_text s)"
proof -
  let ?t = "strip s"
  have 1: "\<forall>c\<in>set (re_sub_ws ?t). isspace c \<longrightarrow> c = 0x20" using re_sub_ws_spaces by blast
  have 2: "\<not> has_ws_pair (re_sub_ws ?t)" by (rule re_sub_ws_no_pair)
  have 3: "re_sub_ws ?t \<noteq> [] \<longrightarrow> \<not> isspace (last (re_sub_ws ?t))"
    using strip_ends [of s] isspace_last_re_sub_ws [of ?t] by auto
  show ?thesis unfolding clean_text_eq nf_def using 1 2 3 by blast
qed

lemma clean_text_ends:
  "clean_text s = [] \<or> (\<not> isspace (hd (clean_text s)) \<and> \<not> isspace (last (clean_text s)))"
proof (cases "strip s = []")
  case True
  then show ?thesis by (simp add: clean_text_eq)
next
  case False
  then have "\<not> isspace (hd (strip s))" and "\<not> isspace (last (strip s))"
    using strip_ends [of s] by auto
  then show ?thesis
    using False isspace_hd_re_sub_ws [of "strip s"] isspace_last_re_sub_ws [of "strip s"]
    by (simp add: clean_text_eq)
qed

text \<open>
  Claim C9.  Cleaning is idempotent, and cleaned text is in normal form: it holds no line
  feed and no carriage return, no two neighbouring whitespace characters, and neither
  starts nor ends with whitespace; the empty text is cleaned to the empty text.
\<close>

theorem clean_text_normal_form:
  "clean_text (clean_text s) = clean_text s \<and>
   0x0A \<notin> set (clean_text s) \<and> 0x0D \<notin> set (clean_text s) \<and>
   \<not> has_ws_pair (clean_text s) \<and>
   (clean_text s = [] \<or>
      (\<not> isspace (hd (clean_text s)) \<and> \<not> isspace (last (clean_text s)))) \<and>
   clean_text [] = []"
proof -
  have st: "strip (clean_text s) = clean_text s"
    using clean_text_ends [of s] by (rule strip_id)
  have idem: "clean_text (clean_text s) = clean_text s"
    using re_sub_ws_nf [OF clean_text_nf, of s] by (simp add: clean_text_eq [of "clean_text s"] st)
  have lf: "0x0A \<notin> set (clean_text s)"
    using re_sub_ws_spaces [of "0x0A" "strip s"] by (auto simp: clean_text_eq isspace_def)
  have cr: "0x0D \<notin> set (clean_text s)"
    using re_sub_ws_spaces [of "0x0D" "strip s"] by (auto simp: clean_text_eq isspace_def)
  have np: "\<not> has_ws_pair (clean_text s)"
    by (simp add: clean_text_eq re_sub_ws_no_pair)
  have e: "clean_text [] = []" by (simp add: clean_text_def)
  show ?thesis using idem lf cr np clean_text_ends [of s] e by blast
qed

text \<open>The normal form at a text with leading, trailing and inner whitespace runs.\<close>

theorem clean_text_normal_form_witness:
  "clean_text (ustr ''  a  b '' @ [0x0A, 0x3000]) = ustr ''a b'' \<and>
   clean_text (ustr ''  a  b '' @ [0x0A, 0x3000]) \<noteq> [] \<and>
   \<not> isspace (hd (clean_text (ustr ''  a  b '' @ [0x0A, 0x3000]))) \<and>
   \<not> isspace (last (clean_text (ustr ''  a  b '' @ [0x0A, 0x3000])))"
proof -
  have v: "clean_text (ustr ''  a  b '' @ [0x0A, 0x3000]) = ustr ''a b''"
    by (simp add: clean_text_def ustr_def strip_def isspace_def replace_char_def)
  show ?thesis
    using clean_text_normal_form [of "ustr ''  a  b '' @ [0x0A, 0x3000]"] unfolding v
    by (simp add: ustr_def)
qed

section \<open>Properties of header reconstruction\<close>

lemma spans_ok_attrs:
  assumes "spans_ok c"
  shows "int_attr (rowspan c) = Inr (span (rowspan c))"
    and "int_attr (colspan c) = Inr (span (colspan c))"
    and "label c = candidate_votes_label \<Longrightarrow> span (rowspan c) \<noteq> 2 \<Longrightarrow>
         span (rowspan c) = 1 \<and> 0 \<le> span (colspan c)"
  using assms by (auto simp: spans_ok_def int_attr_def span_def split: attr.splits)

lemma first_row_loop_spec:
  "list_all spans_ok cs \<Longrightarrow>
   \<exists>hs' q'. first_row_loop hs q cs = Inr (hs', q') \<and>
     hs' @ map label q' = hs @ spec_headers cs (map label q)"
proof (induction cs arbitrary: hs q)
  case Nil
  show ?case by simp
next
  case (Cons c cs)
  then have ok: "spans_ok c" and rest: "list_all spans_ok cs" by simp_all
  note a = spans_ok_attrs [OF ok]
  let ?k = "span (colspan c)"
  show ?case
  proof (cases "span (rowspan c) = 2")
    case True
    then show ?thesis using Cons.IH [OF rest, of "hs @ [label c]" q] a(1,2) by simp
  next
    case False
    show ?thesis
    proof (cases "label c = candidate_votes_label")
      case True
      then have r1: "span (rowspan c) = 1" and k: "0 \<le> ?k" using a(3) False by simp_all
      have "slice_to ?k q = take (nat ?k) q" "slice_from ?k q = drop (nat ?k) q"
        using k by (simp_all add: slice_to_def slice_from_def)
      then show ?thesis
        using Cons.IH [OF rest, of "hs @ map label (take (nat ?k) q)" "drop (nat ?k) q"]
          a(1,2) r1 True by (simp add: take_map drop_map)
    next
      case no: False
      then show ?thesis using Cons.IH [OF rest, of "hs @ [label c]" q] a(1,2) False by simp
    qed
  qed
qed

text \<open>
  Claim C2.  On a table with at least two header rows, \<^verbatim>\<open>_extract_headers\<close> returns the
  headers the specification describes: a cell of row span 2 once, for a cell of row span 1
  with the composite label and column span \<open>k\<close> the next \<open>k\<close> unconsumed labels of the
  second row, any other label as it is, and then the unconsumed labels of the second row
  in order.  The span attributes of the first-row cells are integers where they are
  present, and the column span of a composite cell is a count.
\<close>

theorem extract_headers_two_rows:
  assumes "header_rows t = first_row # second_row # others"
    and "list_all spans_ok first_row"
  shows "extract_headers t = Inr (spec_headers first_row (map label second_row))"
proof -
  obtain hs' q' where "first_row_loop [] second_row first_row = Inr (hs', q')"
    and "hs' @ map label q' = [] @ spec_headers first_row (map label second_row)"
    using first_row_loop_spec [OF assms(2), of "[]" second_row] by blast
  then show ?thesis using assms(1) by (simp add: extract_headers_def)
qed

lemma label_eval:
  "label \<lparr>cell_text = ustr ''A'', colspan = x, rowspan = y\<rparr> = ustr ''A''"
  "label \<lparr>cell_text = ustr ''C'', colspan = x, rowspan = y\<rparr> = ustr ''C''"
  "label \<lparr>cell_text = ustr ''D'', colspan = x, rowspan = y\<rparr> = ustr ''D''"
  "label \<lparr>cell_text = candidate_votes_label, colspan = x, rowspan = y\<rparr> = candidate_votes_label"
  by (simp_all add: label_def clean_text_def ustr_def strip_def isspace_def replace_char_def candidate_votes_label_def)

text \<open>The example of the specification: the header sequence is \<open>[A, C, D]\<close>.\<close>

theorem extract_headers_two_rows_witness:
  "header_rows example_table =
     [\<lparr>cell_text = ustr ''A'', colspan = Missing, rowspan = IntText 2\<rparr>,
      \<lparr>cell_text = candidate_votes_label, colspan = IntText 2, rowspan = IntText 1\<rparr>] #
     [\<lparr>cell_text = ustr ''C'', colspan = Missing, rowspan = Missing\<rparr>,
      \<lparr>cell_text = ustr ''D'', colspan = Missing, rowspan = Missing\<rparr>] # [] \<and>
   list_all spans_ok
     [\<lparr>cell_text = ustr ''A'', colspan = Missing, rowspan = IntText 2\<rparr>,
      \<lparr>cell_text = candidate_votes_label, colspan = IntText 2, rowspan = IntText 1\<rparr>] \<and>
   extract_headers example_table = Inr [ustr ''A'', ustr ''C'', ustr ''D'']"
proof -
  have 1: "header_rows example_table =
     [\<lparr>cell_text = ustr ''A'', colspan = Missing, rowspan = IntText 2\<rparr>,
      \<lparr>cell_text = candidate_votes_label, colspan = IntText 2, rowspan = IntText 1\<rparr>] #
     [\<lparr>cell_text = ustr ''C'', colspan = Missing, rowspan = Missing\<rparr>,
      \<lparr>cell_text = ustr ''D'', colspan = Missing, rowspan = Missing\<rparr>] # []"
    by (simp add: header_rows_def example_table_def)
  have 2: "list_all spans_ok
     [\<lparr>cell_text = ustr ''A'', colspan = Missing, rowspan = IntText 2\<rparr>,
      \<lparr>cell_text = candidate_votes_label, colspan = IntText 2, rowspan = IntText 1\<rparr>]"
    by (simp add: spans_ok_def span_def label_eval)
  have 3: "extract_headers example_table = Inr [ustr ''A'', ustr ''C'', ustr ''D'']"
    using extract_headers_two_rows [OF 1 2] by (simp add: label_eval span_def)
  show ?thesis using 1 2 3 by (intro conjI)
qed

section \<open>Properties of the data rows\<close>

declare decimal.simps [simp del]

lemma undecimal_decimal: "undecimal (decimal n) = n"
proof (induction n rule: decimal.induct)
  case (1 n)
  show ?case
  proof (cases "n < 10")
    case True
    then show ?thesis by (subst decimal.simps) (simp add: undecimal_def)
  next
    case False
    then have "undecimal (decimal (n div 10)) = n div 10" using 1 by simp
    then show ?thesis using False
      by (subst decimal.simps) (simp add: undecimal_def)
  qed
qed

lemma decimal_inj: "decimal i = decimal j \<Longrightarrow> i = j"
  by (metis undecimal_decimal)

lemma extra_key_inj: "extra_key i = extra_key j \<Longrightarrow> i = j"
  by (simp add: extra_key_def decimal_inj)

lemma map_cells_Cons:
  "map_cells hs i (c # cs) m = map_cells hs (Suc i) cs (m(cell_key hs i \<mapsto> label c))"
  by (simp add: cell_key_def)

declare map_cells.simps(2) [simp del]

lemma map_cells_other:
  "(\<forall>j < length cs. cell_key hs (i + j) \<noteq> k) \<Longrightarrow> map_cells hs i cs m k = m k"
proof (induction cs arbitrary: i m)
  case Nil
  show ?case by simp
next
  case (Cons c cs)
  have "\<forall>j < length cs. cell_key hs (Suc i + j) \<noteq> k" using Cons.prems by auto
  moreover have "cell_key hs i \<noteq> k" using Cons.prems by force
  ultimately show ?case using Cons.IH [of "Suc i"] by (simp add: map_cells_Cons)
qed

lemma map_cells_last_write:
  "j < length cs \<Longrightarrow> (\<forall>j' < length cs. j < j' \<longrightarrow> cell_key hs (i + j') \<noteq> cell_key hs (i + j)) \<Longrightarrow>
   map_cells hs i cs m (cell_key hs (i + j)) = Some (label (cs ! j))"
proof (induction cs arbitrary: i j m)
  case Nil
  then show ?case by simp
next
  case (Cons c cs)
  show ?case
  proof (cases j)
    case 0
    have "\<forall>j' < length cs. cell_key hs (Suc i + j') \<noteq> cell_key hs i"
      using Cons.prems(2) 0 by auto
    then show ?thesis using 0 map_cells_other [of cs hs "Suc i" "cell_key hs i"]
      by (simp add: map_cells_Cons)
  next
    case (Suc n)
    then have n: "n < length cs" using Cons.prems by simp
    have "\<forall>j' < length cs. n < j' \<longrightarrow> cell_key hs (Suc i + j') \<noteq> cell_key hs (Suc i + n)"
      using Cons.prems(2) Suc by auto
    then show ?thesis using Cons.IH [where j = n and i = "Suc i"] n Suc by (simp add: map_cells_Cons)
  qed
qed

lemma map_cells_dom:
  "dom (map_cells hs i cs m) = dom m \<union> {cell_key hs (i + j) | j. j < length cs}"
proof (induction cs arbitrary: i m)
  case Nil
  show ?case by simp
next
  case (Cons c cs)
  have "{cell_key hs (i + j) | j. j < length (c # cs)} =
        insert (cell_key hs i) {cell_key hs (Suc i + j) | j. j < length cs}"
  proof (intro set_eqI iffI)
    fix x assume "x \<in> {cell_key hs (i + j) | j. j < length (c # cs)}"
    then obtain j where j: "x = cell_key hs (i + j)" "j < length (c # cs)" by blast
    then show "x \<in> insert (cell_key hs i) {cell_key hs (Suc i + j) | j. j < length cs}"
      by (cases j) auto
  next
    fix x assume "x \<in> insert (cell_key hs i) {cell_key hs (Suc i + j) | j. j < length cs}"
    then consider "x = cell_key hs (i + 0)" | j where "x = cell_key hs (i + Suc j)" "j < length cs"
      by auto
    then show "x \<in> {cell_key hs (i + j) | j. j < length (c # cs)}"
    proof cases
      case 1
      then show ?thesis by (metis (mono_tags, lifting) length_greater_0_conv list.distinct(1) mem_Collect_eq)
    next
      case 2
      then have "Suc j < length (c # cs)" by simp
      then show ?thesis using 2(1) by blast
    qed
  qed
  moreover have "dom (m(cell_key hs i \<mapsto> label c)) = insert (cell_key hs i) (dom m)" by simp
  ultimately show ?case unfolding map_cells_Cons Cons.IH [of "Suc i"] by blast
qed

lemma fill_missing_apply:
  "fill_missing hs m k = (if k \<in> dom m then m k else if k \<in> set hs then Some [] else None)"
  by (induction hs arbitrary: m) (auto simp: domIff)

text \<open>
  Claim C6.  The records of \<^verbatim>\<open>_extract_data_rows\<close> are the records of the rows that have
  cells, and every record has every header as a key.  In the record of a row, the cell at
  a position beyond the headers is stored under \<open>Extra_Column_i\<close>; the cell at position
  \<open>i\<close> within the headers is stored under the \<open>i\<close>-th header, unless a later cell of the
  row is written under the same key (a repeated label: the last write stays); every header
  under which no cell is written holds the empty text.  In particular three distinct
  headers and a row of two cells give the record \<open>{h1: v1, h2: v2, h3: ''}\<close>.
\<close>

theorem row_record_positional:
  "extract_data_rows t headers =
     map (row_record headers) (filter (\<lambda>cells. cells \<noteq> []) (data_rows t)) \<and>
   (\<forall>r \<in> set (extract_data_rows t headers). set headers \<subseteq> dom r) \<and>
   set headers \<subseteq> dom (row_record headers cells) \<and>
   (\<forall>i < length cells. length headers \<le> i \<longrightarrow>
      row_record headers cells (extra_key i) = Some (label (cells ! i))) \<and>
   (\<forall>i < length cells. i < length headers \<and>
        (\<forall>j < length cells. i < j \<longrightarrow> cell_key headers j \<noteq> headers ! i) \<longrightarrow>
      row_record headers cells (headers ! i) = Some (label (cells ! i))) \<and>
   (\<forall>h \<in> set headers. (\<forall>j < length cells. cell_key headers j \<noteq> h) \<longrightarrow>
      row_record headers cells h = Some []) \<and>
   (distinct [h1, h2, h3] \<longrightarrow>
      row_record [h1, h2, h3] [v1, v2] = [h1 \<mapsto> label v1, h2 \<mapsto> label v2, h3 \<mapsto> []])"
proof -
  let ?m = "map_cells headers 0 cells Map.empty"
  have dom_m: "dom ?m = {cell_key headers j | j. j < length cells}"
    using map_cells_dom [of headers 0 cells Map.empty] by simp
  have a: "set headers \<subseteq> dom (row_record headers cells)"
    by (auto simp: row_record_def fill_missing_apply domIff)
  have written: "row_record headers cells (cell_key headers i) = Some (label (cells ! i))"
    if "i < length cells" "\<forall>j < length cells. i < j \<longrightarrow> cell_key headers j \<noteq> cell_key headers i" for i
  proof -
    have "?m (cell_key headers i) = Some (label (cells ! i))"
      using map_cells_last_write [of i cells headers 0 Map.empty] that by simp
    then show ?thesis by (simp add: row_record_def fill_missing_apply domIff)
  qed
  have b: "\<forall>i < length cells. length headers \<le> i \<longrightarrow>
      row_record headers cells (extra_key i) = Some (label (cells ! i))"
  proof (intro allI impI)
    fix i assume i: "i < length cells" "length headers \<le> i"
    then have k: "cell_key headers i = extra_key i" by (simp add: cell_key_def)
    have "\<forall>j < length cells. i < j \<longrightarrow> cell_key headers j \<noteq> cell_key headers i"
      using i extra_key_inj by (auto simp: cell_key_def)
    then show "row_record headers cells (extra_key i) = Some (label (cells ! i))"
      using written [OF i(1)] k by simp
  qed
  have c: "\<forall>i < length cells. i < length headers \<and>
        (\<forall>j < length cells. i < j \<longrightarrow> cell_key headers j \<noteq> headers ! i) \<longrightarrow>
      row_record headers cells (headers ! i) = Some (label (cells ! i))"
  proof (intro allI impI)
    fix i assume i: "i < length cells"
      and h: "i < length headers \<and> (\<forall>j < length cells. i < j \<longrightarrow> cell_key headers j \<noteq> headers ! i)"
    then have k: "cell_key headers i = headers ! i" by (simp add: cell_key_def)
    show "row_record headers cells (headers ! i) = Some (label (cells ! i))"
      using written [OF i] h k by simp
  qed
  have d: "\<forall>h \<in> set headers. (\<forall>j < length cells. cell_key headers j \<noteq> h) \<longrightarrow>
      row_record headers cells h = Some []"
  proof (intro ballI impI)
    fix h assume h: "h \<in> set headers" "\<forall>j < length cells. cell_key headers j \<noteq> h"
    then have "h \<notin> dom ?m" unfolding dom_m by blast
    then show "row_record headers cells h = Some []"
      using h(1) by (simp add: row_record_def fill_missing_apply)
  qed
  have e: "distinct [h1, h2, h3] \<longrightarrow>
      row_record [h1, h2, h3] [v1, v2] = [h1 \<mapsto> label v1, h2 \<mapsto> label v2, h3 \<mapsto> []]"
    by (auto simp: row_record_def map_cells.simps)
  have f: "\<forall>r \<in> set (extract_data_rows t headers). set headers \<subseteq> dom r"
    by (auto simp: extract_data_rows_def row_record_def fill_missing_apply domIff)
  have g: "extract_data_rows t headers =
     map (row_record headers) (filter (\<lambda>cells. cells \<noteq> []) (data_rows t))"
    by (simp add: extract_data_rows_def)
  show ?thesis using a b c d e f g by blast
qed

lemma label_plain:
  "label \<lparr>cell_text = ustr ''v1'', colspan = x, rowspan = y\<rparr> = ustr ''v1''"
  "label \<lparr>cell_text = ustr ''v2'', colspan = x, rowspan = y\<rparr> = ustr ''v2''"
  by (simp_all add: label_def clean_text_def ustr_def strip_def isspace_def replace_char_def)

text \<open>The ragged row of the specification, and a row with one cell too many.\<close>

theorem row_record_positional_witness:
  "distinct [ustr ''h1'', ustr ''h2'', ustr ''h3''] \<and>
   row_record [ustr ''h1'', ustr ''h2'', ustr ''h3'']
     [\<lparr>cell_text = ustr ''v1'', colspan = Missing, rowspan = Missing\<rparr>,
      \<lparr>cell_text = ustr ''v2'', colspan = Missing, rowspan = Missing\<rparr>] =
     [ustr ''h1'' \<mapsto> ustr ''v1'', ustr ''h2'' \<mapsto> ustr ''v2'', ustr ''h3'' \<mapsto> []] \<and>
   row_record [ustr ''h1'']
     [\<lparr>cell_text = ustr ''v1'', colspan = Missing, rowspan = Missing\<rparr>,
      \<lparr>cell_text = ustr ''v2'', colspan = Missing, rowspan = Missing\<rparr>]
     (ustr ''Extra_Column_1'') = Some (ustr ''v2'')"
proof -
  have k: "extra_key (Suc 0) = ustr ''Extra_Column_1''"
    by (simp add: extra_key_def decimal.simps ustr_def)
  let ?cells = "[\<lparr>cell_text = ustr ''v1'', colspan = Missing, rowspan = Missing\<rparr>,
      \<lparr>cell_text = ustr ''v2'', colspan = Missing, rowspan = Missing\<rparr>]"
  have "\<forall>i < length ?cells. length [ustr ''h1''] \<le> i \<longrightarrow>
      row_record [ustr ''h1''] ?cells (extra_key i) = Some (label (?cells ! i))"
    using row_record_positional [of example_table "[ustr ''h1'']" ?cells] by blast
  then have "row_record [ustr ''h1''] ?cells (extra_key 1) = Some (label (?cells ! 1))"
    by simp
  then have o: "row_record [ustr ''h1''] ?cells (ustr ''Extra_Column_1'') = Some (ustr ''v2'')"
    by (simp add: k label_plain)
  have d: "distinct [ustr ''h1'', ustr ''h2'', ustr ''h3'']" by (simp add: ustr_def)
  show ?thesis
    using d row_record_positional [of example_table "[]" "[]" "ustr ''h1''" "ustr ''h2''" "ustr ''h3''"
        "\<lparr>cell_text = ustr ''v1'', colspan = Missing, rowspan = Missing\<rparr>"
        "\<lparr>cell_text = ustr ''v2'', colspan = Missing, rowspan = Missing\<rparr>"]
    by (simp only: label_plain simp_thms o)
qed

section \<open>Properties of requests with retries\<close>

declare request_attempts.simps [simp del]
declare adapter_send.simps [simp del]

lemma calls_trace [simp]: "calls (w\<lparr>trace := t\<rparr>) = length (filter is_call t)"
  by (simp add: calls_def)

lemma sends_trace [simp]: "sends (w\<lparr>trace := t\<rparr>) = length (filter is_send t)"
  by (simp add: sends_def)

lemma sleep_backoff_events: "sleep_backoff n w = w\<lparr>trace := trace w @ backoff_events n\<rparr>"
  by (simp add: sleep_backoff_def backoff_events_def sleep_def)

lemma sends_backoff_events [simp]: "filter is_send (backoff_events n) = []"
  by (simp add: backoff_events_def)

lemma calls_backoff_events [simp]: "filter is_call (backoff_events n) = []"
  by (simp add: backoff_events_def)

lemma sends_adapter_trace [simp]: "length (filter is_send (adapter_trace req f k)) = k"
  by (induction req f k rule: adapter_trace.induct) simp_all

lemma calls_adapter_trace [simp]: "filter is_call (adapter_trace req f k) = []"
  by (induction req f k rule: adapter_trace.induct) simp_all

lemma adapter_trace_Suc:
  "0 < k \<Longrightarrow> adapter_trace req f (Suc k) =
     Sent req # backoff_events (Suc f) @ adapter_trace req (Suc f) k"
  by (cases k) simp_all

lemma adapter_send_events:
  "\<exists>k. 1 \<le> k \<and> (f \<le> MAX_RETRIES \<longrightarrow> f + k \<le> Suc MAX_RETRIES) \<and>
     (\<forall>j. Suc j < k \<longrightarrow> is_retry req (server w (sends w + j) req)) \<and>
     (is_retry req (server w (sends w + k - 1) req) \<longrightarrow> f \<le> MAX_RETRIES \<longrightarrow>
        f + k = Suc MAX_RETRIES) \<and>
     adapter_send f req w =
       (adapter_result req (server w (sends w + k - 1) req),
        w\<lparr>trace := trace w @ adapter_trace req f k\<rparr>)"
proof (induction f req w rule: adapter_send.induct)
  case (1 f req w)
  let ?o = "server w (sends w) req"
  let ?w1 = "w\<lparr>trace := trace w @ [Sent req]\<rparr>"
  show ?case
  proof (cases "is_retry req ?o \<and> f < MAX_RETRIES")
    case False
    then have "adapter_send f req w = (adapter_result req ?o, ?w1)"
      by (subst adapter_send.simps) (auto simp: send_def adapter_result_def)
    then show ?thesis using False by (intro exI [of _ 1]) auto
  next
    case True
    let ?w2 = "sleep_backoff (Suc f) ?w1"
    have s: "send req w = (?o, ?w1)" by (simp add: send_def)
    from "1.IH" [OF s [symmetric]] True
    obtain k where k: "1 \<le> k" "Suc f \<le> MAX_RETRIES \<longrightarrow> Suc f + k \<le> Suc MAX_RETRIES"
      "\<forall>j. Suc j < k \<longrightarrow> is_retry req (server ?w2 (sends ?w2 + j) req)"
      "is_retry req (server ?w2 (sends ?w2 + k - 1) req) \<longrightarrow> Suc f \<le> MAX_RETRIES \<longrightarrow>
         Suc f + k = Suc MAX_RETRIES"
      "adapter_send (Suc f) req ?w2 =
        (adapter_result req (server ?w2 (sends ?w2 + k - 1) req),
         ?w2\<lparr>trace := trace ?w2 @ adapter_trace req (Suc f) k\<rparr>)"
      by auto
    have u: "adapter_send f req w = adapter_send (Suc f) req ?w2"
      using True by (subst adapter_send.simps) (simp add: send_def)
    have n: "sends ?w2 = Suc (sends w)" "server ?w2 = server w"
      by (simp_all add: sleep_backoff_events sends_def)
    have i: "sends ?w2 + k - 1 = sends w + Suc k - 1"
      using k(1) n by simp
    have a: "adapter_send f req w =
       (adapter_result req (server w (sends w + Suc k - 1) req),
        w\<lparr>trace := trace w @ adapter_trace req f (Suc k)\<rparr>)"
      unfolding u k(5) i using k(1) by (simp add: sleep_backoff_events adapter_trace_Suc)
    have b: "\<forall>j. Suc j < Suc k \<longrightarrow> is_retry req (server w (sends w + j) req)"
    proof (intro allI impI)
      fix j assume j: "Suc j < Suc k"
      show "is_retry req (server w (sends w + j) req)"
      proof (cases j)
        case 0
        then show ?thesis using True by simp
      next
        case (Suc i)
        then have "Suc i < k" using j by simp
        then have "is_retry req (server ?w2 (sends ?w2 + i) req)" using k(3) by blast
        then show ?thesis using Suc n by simp
      qed
    qed
    have c: "is_retry req (server w (sends w + Suc k - 1) req) \<longrightarrow> f \<le> MAX_RETRIES \<longrightarrow>
        f + Suc k = Suc MAX_RETRIES"
      using k(4) True unfolding i n(2) by auto
    show ?thesis using k(1,2) True a b c by (intro exI [of _ "Suc k"]) simp
  qed
qed

lemma raised_result:
  "raised out = Some e \<Longrightarrow>
   (case out of Fails e \<Rightarrow> Inl e | Responds r \<Rightarrow> raise_for_status r) = Inl e"
  by (auto simp: raised_def split: outcome.splits sum.splits)

lemma request_fails_adapter_result:
  "request_fails out \<Longrightarrow> request_fails (adapter_result req out)"
  by (auto simp: adapter_result_def exhausted_def request_fails_def raised_def
      is_RequestException_def split: outcome.splits)

lemma session_request_events:
  "\<exists>k. 1 \<le> k \<and> k \<le> Suc MAX_RETRIES \<and>
     ((\<forall>n. is_retry req (server w n req)) \<longrightarrow> k = Suc MAX_RETRIES) \<and>
     ((\<forall>n. \<not> is_retry req (server w n req)) \<longrightarrow> k = 1) \<and>
     session_request req w =
       (adapter_result req (server w (sends w + k - 1) req),
        w\<lparr>trace := trace w @ Called req # adapter_trace req 0 k\<rparr>)"
proof -
  let ?w1 = "w\<lparr>trace := trace w @ [Called req]\<rparr>"
  have n: "sends ?w1 = sends w" "server ?w1 = server w" by (simp_all add: sends_def)
  obtain k where k: "1 \<le> k" "0 + k \<le> Suc MAX_RETRIES"
    "\<forall>j. Suc j < k \<longrightarrow> is_retry req (server w (sends w + j) req)"
    "is_retry req (server w (sends w + k - 1) req) \<longrightarrow> 0 + k = Suc MAX_RETRIES"
    "adapter_send 0 req ?w1 =
       (adapter_result req (server w (sends w + k - 1) req),
        ?w1\<lparr>trace := trace ?w1 @ adapter_trace req 0 k\<rparr>)"
    using adapter_send_events [of 0 req ?w1] unfolding n by auto
  have a: "(\<forall>n. \<not> is_retry req (server w n req)) \<longrightarrow> k = 1"
  proof
    assume h: "\<forall>n. \<not> is_retry req (server w n req)"
    show "k = 1"
    proof (rule ccontr)
      assume "k \<noteq> 1"
      then have "Suc 0 < k" using k(1) by simp
      then show False using k(3) h by blast
    qed
  qed
  show ?thesis
    using k a by (intro exI [of _ k]) (simp add: session_request_def)
qed

lemma attempt_request_fails_first:
  assumes "\<forall>n. request_fails (server w n req)"
  shows "\<exists>k e. 1 \<le> k \<and> k \<le> Suc MAX_RETRIES \<and>
     ((\<forall>n. is_retry req (server w n req)) \<longrightarrow> k = Suc MAX_RETRIES) \<and>
     ((\<forall>n. \<not> is_retry req (server w n req)) \<longrightarrow> k = 1) \<and>
     is_RequestException e \<and>
     raised (adapter_result req (server w (sends w + k - 1) req)) = Some e \<and>
     attempt_request 0 req w =
       (Inl e, w\<lparr>trace := trace w @ Called req # adapter_trace req 0 k\<rparr>)"
proof -
  obtain k where k: "1 \<le> k" "k \<le> Suc MAX_RETRIES"
    "(\<forall>n. is_retry req (server w n req)) \<longrightarrow> k = Suc MAX_RETRIES"
    "(\<forall>n. \<not> is_retry req (server w n req)) \<longrightarrow> k = 1"
    "session_request req w =
       (adapter_result req (server w (sends w + k - 1) req),
        w\<lparr>trace := trace w @ Called req # adapter_trace req 0 k\<rparr>)"
    using session_request_events [of req w] by blast
  let ?out = "adapter_result req (server w (sends w + k - 1) req)"
  have "request_fails ?out" using assms request_fails_adapter_result by blast
  then obtain e where e: "raised ?out = Some e" "is_RequestException e"
    by (auto simp: request_fails_def split: option.splits)
  have "attempt_request 0 req w =
       (Inl e, w\<lparr>trace := trace w @ Called req # adapter_trace req 0 k\<rparr>)"
    using k(5) raised_result [OF e(1)]
    by (auto simp: attempt_request_def split: outcome.splits)
  then show ?thesis using k e by blast
qed

lemma attempt_request_fails_later:
  assumes "\<forall>n. request_fails (server w n req)" and "0 < attempt"
  shows "\<exists>k e. 1 \<le> k \<and> k \<le> Suc MAX_RETRIES \<and>
     ((\<forall>n. is_retry req (server w n req)) \<longrightarrow> k = Suc MAX_RETRIES) \<and>
     ((\<forall>n. \<not> is_retry req (server w n req)) \<longrightarrow> k = 1) \<and>
     is_RequestException e \<and>
     raised (adapter_result req (server w (sends w + k - 1) req)) = Some e \<and>
     attempt_request attempt req w =
       (Inl e, w\<lparr>draws := Suc (draws w),
          trace := trace w @
            Slept (RETRY_DELAY * 2 ^ attempt * (1 / 2 + rand w (draws w))) # Called req #
            adapter_trace req 0 k\<rparr>)"
proof -
  let ?w1 = "w\<lparr>draws := Suc (draws w),
     trace := trace w @ [Slept (RETRY_DELAY * 2 ^ attempt * (1 / 2 + rand w (draws w)))]\<rparr>"
  have n: "sends ?w1 = sends w" "server ?w1 = server w" by (simp_all add: sends_def)
  obtain k where k: "1 \<le> k" "k \<le> Suc MAX_RETRIES"
    "(\<forall>n. is_retry req (server w n req)) \<longrightarrow> k = Suc MAX_RETRIES"
    "(\<forall>n. \<not> is_retry req (server w n req)) \<longrightarrow> k = 1"
    "session_request req ?w1 =
       (adapter_result req (server w (sends w + k - 1) req),
        ?w1\<lparr>trace := trace ?w1 @ Called req # adapter_trace req 0 k\<rparr>)"
    using session_request_events [of req ?w1] unfolding n by blast
  let ?out = "adapter_result req (server w (sends w + k - 1) req)"
  have "request_fails ?out" using assms request_fails_adapter_result by blast
  then obtain e where e: "raised ?out = Some e" "is_RequestException e"
    by (auto simp: request_fails_def split: option.splits)
  have p: "(let (jitter, wj) = uniform (1 / 2) (3 / 2) w;
                       delay = RETRY_DELAY * 2 ^ attempt * jitter
                   in sleep delay wj) = ?w1"
    by (simp add: uniform_def sleep_def)
  have "attempt_request attempt req w =
       (Inl e, ?w1\<lparr>trace := trace ?w1 @ Called req # adapter_trace req 0 k\<rparr>)"
    using k(5) raised_result [OF e(1)] assms(2) unfolding attempt_request_def p
    by (auto split: outcome.splits)
  then show ?thesis using k e by (intro exI [of _ k] exI [of _ e]) simp
qed

lemma request_attempts_step:
  "attempt < MAX_RETRIES \<Longrightarrow> attempt_request attempt req w = (Inl e, w2) \<Longrightarrow>
   is_RequestException e \<Longrightarrow>
   request_attempts attempt req w =
     (if attempt = MAX_RETRIES - 1 then (Inl (ElectionCrawlerError (Some e)), w2)
      else request_attempts (Suc attempt) req w2)"
  by (subst request_attempts.simps) simp

lemma retry_all_fail:
  assumes "\<forall>n. request_fails (server w n req)"
  shows "\<exists>k1 k2 k3 e.
     1 \<le> k1 \<and> k1 \<le> Suc MAX_RETRIES \<and> 1 \<le> k2 \<and> k2 \<le> Suc MAX_RETRIES \<and>
     1 \<le> k3 \<and> k3 \<le> Suc MAX_RETRIES \<and>
     ((\<forall>n. is_retry req (server w n req)) \<longrightarrow>
        k1 = Suc MAX_RETRIES \<and> k2 = Suc MAX_RETRIES \<and> k3 = Suc MAX_RETRIES) \<and>
     ((\<forall>n. \<not> is_retry req (server w n req)) \<longrightarrow> k1 = 1 \<and> k2 = 1 \<and> k3 = 1) \<and>
     is_RequestException e \<and>
     raised (adapter_result req (server w (sends w + k1 + k2 + k3 - 1) req)) = Some e \<and>
     make_request_with_retry req w =
       (Inl (ElectionCrawlerError (Some e)),
        w\<lparr>draws := Suc (Suc (draws w)),
          trace := trace w @
            Called req # adapter_trace req 0 k1 @
            Slept (RETRY_DELAY * 2 ^ 1 * (1 / 2 + rand w (draws w))) # Called req #
            adapter_trace req 0 k2 @
            Slept (RETRY_DELAY * 2 ^ 2 * (1 / 2 + rand w (draws w + 1))) # Called req #
            adapter_trace req 0 k3\<rparr>)"
proof -
  obtain k1 e1 where a: "1 \<le> k1" "k1 \<le> Suc MAX_RETRIES"
    "(\<forall>n. is_retry req (server w n req)) \<longrightarrow> k1 = Suc MAX_RETRIES"
    "(\<forall>n. \<not> is_retry req (server w n req)) \<longrightarrow> k1 = 1"
    "is_RequestException e1"
    "attempt_request 0 req w =
       (Inl e1, w\<lparr>trace := trace w @ Called req # adapter_trace req 0 k1\<rparr>)"
    using attempt_request_fails_first [OF assms] by blast
  let ?w1 = "w\<lparr>trace := trace w @ Called req # adapter_trace req 0 k1\<rparr>"
  have n1: "server ?w1 = server w" "sends ?w1 = sends w + k1" "draws ?w1 = draws w"
    "rand ?w1 = rand w"
    by (simp_all add: sends_def)
  have f1: "\<forall>n. request_fails (server ?w1 n req)" using assms by simp
  obtain k2 e2 where b: "1 \<le> k2" "k2 \<le> Suc MAX_RETRIES"
    "(\<forall>n. is_retry req (server w n req)) \<longrightarrow> k2 = Suc MAX_RETRIES"
    "(\<forall>n. \<not> is_retry req (server w n req)) \<longrightarrow> k2 = 1"
    "is_RequestException e2"
    "attempt_request (Suc 0) req ?w1 =
       (Inl e2, ?w1\<lparr>draws := Suc (draws ?w1),
          trace := trace ?w1 @
            Slept (RETRY_DELAY * 2 ^ Suc 0 * (1 / 2 + rand ?w1 (draws ?w1))) # Called req #
            adapter_trace req 0 k2\<rparr>)"
    using attempt_request_fails_later [OF f1, of "Suc 0"] unfolding n1(1) by blast
  let ?w2 = "?w1\<lparr>draws := Suc (draws ?w1),
          trace := trace ?w1 @
            Slept (RETRY_DELAY * 2 ^ Suc 0 * (1 / 2 + rand ?w1 (draws ?w1))) # Called req #
            adapter_trace req 0 k2\<rparr>"
  have n2: "server ?w2 = server w" "sends ?w2 = sends w + k1 + k2"
    by (simp_all add: sends_def)
  have f2: "\<forall>n. request_fails (server ?w2 n req)" using assms by simp
  obtain k3 e3 where c: "1 \<le> k3" "k3 \<le> Suc MAX_RETRIES"
    "(\<forall>n. is_retry req (server w n req)) \<longrightarrow> k3 = Suc MAX_RETRIES"
    "(\<forall>n. \<not> is_retry req (server w n req)) \<longrightarrow> k3 = 1"
    "is_RequestException e3"
    "raised (adapter_result req (server w (sends w + k1 + k2 + k3 - 1) req)) = Some e3"
    "attempt_request (Suc (Suc 0)) req ?w2 =
       (Inl e3, ?w2\<lparr>draws := Suc (draws ?w2),
          trace := trace ?w2 @
            Slept (RETRY_DELAY * 2 ^ Suc (Suc 0) * (1 / 2 + rand ?w2 (draws ?w2))) # Called req #
            adapter_trace req 0 k3\<rparr>)"
    using attempt_request_fails_later [OF f2, of "Suc (Suc 0)"] unfolding n2 by blast
  let ?w3 = "?w2\<lparr>draws := Suc (draws ?w2),
          trace := trace ?w2 @
            Slept (RETRY_DELAY * 2 ^ Suc (Suc 0) * (1 / 2 + rand ?w2 (draws ?w2))) # Called req #
            adapter_trace req 0 k3\<rparr>"
  have r2: "request_attempts (Suc (Suc 0)) req ?w2 = (Inl (ElectionCrawlerError (Some e3)), ?w3)"
    using request_attempts_step [OF _ c(7) c(5)] by (simp add: MAX_RETRIES_def)
  have r1: "request_attempts (Suc 0) req ?w1 = (Inl (ElectionCrawlerError (Some e3)), ?w3)"
    using request_attempts_step [OF _ b(6) b(5)] r2 by (simp add: MAX_RETRIES_def)
  have r0: "request_attempts 0 req w = (Inl (ElectionCrawlerError (Some e3)), ?w3)"
    using request_attempts_step [OF _ a(6) a(5)] r1 by (simp add: MAX_RETRIES_def)
  have m: "make_request_with_retry req w =
       (Inl (ElectionCrawlerError (Some e3)),
        w\<lparr>draws := Suc (Suc (draws w)),
          trace := trace w @
            Called req # adapter_trace req 0 k1 @
            Slept (RETRY_DELAY * 2 ^ 1 * (1 / 2 + rand w (draws w))) # Called req #
            adapter_trace req 0 k2 @
            Slept (RETRY_DELAY * 2 ^ 2 * (1 / 2 + rand w (draws w + 1))) # Called req #
            adapter_trace req 0 k3\<rparr>)"
    using r0 unfolding make_request_with_retry_def by simp
  show ?thesis
    using a(1-4) b(1-4) c(1-6) m
    by (intro exI [of _ k1] exI [of _ k2] exI [of _ k3] exI [of _ e3]) simp
qed

lemma retry_same_failure:
  assumes "\<forall>n. server w n req = Fails e" and "is_RequestException e"
  shows "fst (make_request_with_retry req w) = Inl (ElectionCrawlerError (Some e))"
proof -
  have f: "\<forall>n. request_fails (server w n req)"
    using assms by (simp add: request_fails_def raised_def)
  have "\<And>n. raised (adapter_result req (server w n req)) = Some e"
    using assms(1) by (simp add: adapter_result_def exhausted_def raised_def)
  then show ?thesis using retry_all_fail [OF f] by auto
qed

lemma adapter_trace_four:
  "adapter_trace req 0 (Suc MAX_RETRIES) =
     [Sent req, Sent req, Slept (3 / 5), Sent req, Slept (6 / 5), Sent req]"
  by (simp add: MAX_RETRIES_def eval_nat_numeral backoff_events_def get_backoff_time_def
      backoff_factor_def)

lemma adapter_trace_one: "adapter_trace req 0 1 = [Sent req]"
  by simp

text \<open>
  Claim C4 as it is stated has a request that always fails reach the transport exactly
  three times.  Here every attempt to get the entry page is answered with status 503.
  In each of its three calls of \<^verbatim>\<open>session.request\<close> the adapter that \<^verbatim>\<open>_setup_session\<close>
  mounts tries the transport four times, twelve times in all, and sleeps 0.6 and 1.2
  seconds between its attempts, in the first call too.
\<close>

theorem retry_transport_attempts_counterexample:
  "fst (make_request_with_retry Get_init_page (example_world (answering unavailable) Map.empty)) =
     Inl (ElectionCrawlerError (Some (RequestException (ResponseError 503)))) \<and>
   sends (snd (make_request_with_retry Get_init_page
            (example_world (answering unavailable) Map.empty))) = 12 \<and>
   trace (snd (make_request_with_retry Get_init_page
            (example_world (answering unavailable) Map.empty))) =
     [Called Get_init_page,
      Sent Get_init_page, Sent Get_init_page, Slept (3 / 5), Sent Get_init_page, Slept (6 / 5),
      Sent Get_init_page,
      Slept 3, Called Get_init_page,
      Sent Get_init_page, Sent Get_init_page, Slept (3 / 5), Sent Get_init_page, Slept (6 / 5),
      Sent Get_init_page,
      Slept 6, Called Get_init_page,
      Sent Get_init_page, Sent Get_init_page, Slept (3 / 5), Sent Get_init_page, Slept (6 / 5),
      Sent Get_init_page]"
proof -
  let ?w = "example_world (answering unavailable) Map.empty"
  let ?g = "Get_init_page"
  have s: "\<And>n. server ?w n ?g = Responds unavailable"
    by (simp add: example_world_def answering_def)
  have c: "status_code unavailable = 503" by (simp add: unavailable_def)
  have h: "\<forall>n. request_fails (server ?w n ?g)"
    unfolding s by (simp add: request_fails_def raised_def raise_for_status_def c
        is_RequestException_def)
  have i: "\<forall>n. is_retry ?g (server ?w n ?g)"
    unfolding s by (simp add: is_retry_def status_forcelist_def c)
  have r: "\<And>n. raised (adapter_result ?g (server ?w n ?g)) =
      Some (RequestException (ResponseError 503))"
    unfolding s by (simp add: adapter_result_def exhausted_def raised_def is_retry_def
        status_forcelist_def c)
  have t: "trace ?w = []" "rand ?w = (\<lambda>n. 1 / 4)" "sends ?w = 0"
    by (simp_all add: example_world_def sends_def)
  from retry_all_fail [OF h] i
  obtain e where
    "raised (adapter_result ?g (server ?w
       (sends ?w + Suc MAX_RETRIES + Suc MAX_RETRIES + Suc MAX_RETRIES - 1) ?g)) = Some e"
    "make_request_with_retry ?g ?w =
       (Inl (ElectionCrawlerError (Some e)),
        ?w\<lparr>draws := Suc (Suc (draws ?w)),
          trace := trace ?w @
            Called ?g # adapter_trace ?g 0 (Suc MAX_RETRIES) @
            Slept (RETRY_DELAY * 2 ^ 1 * (1 / 2 + rand ?w (draws ?w))) # Called ?g #
            adapter_trace ?g 0 (Suc MAX_RETRIES) @
            Slept (RETRY_DELAY * 2 ^ 2 * (1 / 2 + rand ?w (draws ?w + 1))) # Called ?g #
            adapter_trace ?g 0 (Suc MAX_RETRIES)\<rparr>)"
    by auto
  then show ?thesis
    unfolding r t adapter_trace_four
    by (simp add: RETRY_DELAY_def)
qed

text \<open>
  Claim C4, amended.  With \<open>MAX_RETRIES = 3\<close>, a request whose every attempt fails calls
  \<^verbatim>\<open>session.request\<close> exactly three times.  In each call the adapter that \<^verbatim>\<open>_setup_session\<close>
  mounts tries the transport at least once and at most \<open>1 + MAX_RETRIES\<close> times, with its
  own sleeps between its attempts and none before the first: four times in each call,
  twelve in all, when every failure is one that the adapter retries, and once in each
  call, three times in all, when none is.  \<^verbatim>\<open>_make_request_with_retry\<close> itself sleeps
  \<open>RETRY_DELAY * 2 ^ attempt * jitter\<close> before its second and before its third call and not
  before its first, where \<open>jitter\<close> is \<^verbatim>\<open>random.uniform(0.5, 1.5)\<close>; and it ends with an
  \<^verbatim>\<open>ElectionCrawlerError\<close> that carries the failure of the third call, which is the one of
  the last attempt on the transport.
\<close>

theorem request_retries_exhausted:
  assumes "\<forall>n. request_fails (server w n req)"
  shows "\<exists>k1 k2 k3 e w'.
     make_request_with_retry req w = (Inl (ElectionCrawlerError (Some e)), w') \<and>
     trace w' = trace w @
       Called req # adapter_trace req 0 k1 @
       Slept (RETRY_DELAY * 2 ^ 1 * (1 / 2 + rand w (draws w))) # Called req #
       adapter_trace req 0 k2 @
       Slept (RETRY_DELAY * 2 ^ 2 * (1 / 2 + rand w (draws w + 1))) # Called req #
       adapter_trace req 0 k3 \<and>
     1 \<le> k1 \<and> k1 \<le> 1 + MAX_RETRIES \<and> 1 \<le> k2 \<and> k2 \<le> 1 + MAX_RETRIES \<and>
     1 \<le> k3 \<and> k3 \<le> 1 + MAX_RETRIES \<and>
     ((\<forall>n. is_retry req (server w n req)) \<longrightarrow>
        k1 = 1 + MAX_RETRIES \<and> k2 = 1 + MAX_RETRIES \<and> k3 = 1 + MAX_RETRIES) \<and>
     ((\<forall>n. \<not> is_retry req (server w n req)) \<longrightarrow> k1 = 1 \<and> k2 = 1 \<and> k3 = 1) \<and>
     calls w' = calls w + MAX_RETRIES \<and>
     sends w' = sends w + k1 + k2 + k3 \<and>
     is_RequestException e \<and>
     raised (adapter_result req (server w (sends w' - 1) req)) = Some e \<and>
     (1 / 2 + rand w (draws w) = fst (uniform (1 / 2) (3 / 2) w)) \<and>
     ((\<forall>n. 0 \<le> rand w n \<and> rand w n \<le> 1) \<longrightarrow>
        1 / 2 \<le> 1 / 2 + rand w (draws w) \<and> 1 / 2 + rand w (draws w) \<le> 3 / 2 \<and>
        1 / 2 \<le> 1 / 2 + rand w (draws w + 1) \<and> 1 / 2 + rand w (draws w + 1) \<le> 3 / 2)"
proof -
  from retry_all_fail [OF assms] obtain k1 k2 k3 e where k:
    "1 \<le> k1" "k1 \<le> Suc MAX_RETRIES" "1 \<le> k2" "k2 \<le> Suc MAX_RETRIES"
    "1 \<le> k3" "k3 \<le> Suc MAX_RETRIES"
    "(\<forall>n. is_retry req (server w n req)) \<longrightarrow>
        k1 = Suc MAX_RETRIES \<and> k2 = Suc MAX_RETRIES \<and> k3 = Suc MAX_RETRIES"
    "(\<forall>n. \<not> is_retry req (server w n req)) \<longrightarrow> k1 = 1 \<and> k2 = 1 \<and> k3 = 1"
    "is_RequestException e"
    "raised (adapter_result req (server w (sends w + k1 + k2 + k3 - 1) req)) = Some e"
    and m: "make_request_with_retry req w =
       (Inl (ElectionCrawlerError (Some e)),
        w\<lparr>draws := Suc (Suc (draws w)),
          trace := trace w @
            Called req # adapter_trace req 0 k1 @
            Slept (RETRY_DELAY * 2 ^ 1 * (1 / 2 + rand w (draws w))) # Called req #
            adapter_trace req 0 k2 @
            Slept (RETRY_DELAY * 2 ^ 2 * (1 / 2 + rand w (draws w + 1))) # Called req #
            adapter_trace req 0 k3\<rparr>)"
    by blast
  let ?w' = "w\<lparr>draws := Suc (Suc (draws w)),
          trace := trace w @
            Called req # adapter_trace req 0 k1 @
            Slept (RETRY_DELAY * 2 ^ 1 * (1 / 2 + rand w (draws w))) # Called req #
            adapter_trace req 0 k2 @
            Slept (RETRY_DELAY * 2 ^ 2 * (1 / 2 + rand w (draws w + 1))) # Called req #
            adapter_trace req 0 k3\<rparr>"
  have c: "calls ?w' = calls w + MAX_RETRIES" by (simp add: calls_def MAX_RETRIES_def)
  have s: "sends ?w' = sends w + k1 + k2 + k3" by (simp add: sends_def)
  have l: "raised (adapter_result req (server w (sends ?w' - 1) req)) = Some e"
    unfolding s using k(10) .
  have u: "1 / 2 + rand w (draws w) = fst (uniform (1 / 2) (3 / 2) w)" by (simp add: uniform_def)
  have b: "(\<forall>n. 0 \<le> rand w n \<and> rand w n \<le> 1) \<longrightarrow>
            1 / 2 \<le> 1 / 2 + rand w (draws w) \<and> 1 / 2 + rand w (draws w) \<le> 3 / 2 \<and>
            1 / 2 \<le> 1 / 2 + rand w (draws w + 1) \<and> 1 / 2 + rand w (draws w + 1) \<le> 3 / 2"
  proof
    assume r: "\<forall>n. 0 \<le> rand w n \<and> rand w n \<le> 1"
    have "0 \<le> rand w (draws w)" "rand w (draws w) \<le> 1"
      "0 \<le> rand w (draws w + 1)" "rand w (draws w + 1) \<le> 1" using r by blast+
    then show "1 / 2 \<le> 1 / 2 + rand w (draws w) \<and> 1 / 2 + rand w (draws w) \<le> 3 / 2 \<and>
            1 / 2 \<le> 1 / 2 + rand w (draws w + 1) \<and> 1 / 2 + rand w (draws w + 1) \<le> 3 / 2"
      by simp
  qed
  have t: "trace ?w' = trace w @
       Called req # adapter_trace req 0 k1 @
       Slept (RETRY_DELAY * 2 ^ 1 * (1 / 2 + rand w (draws w))) # Called req #
       adapter_trace req 0 k2 @
       Slept (RETRY_DELAY * 2 ^ 2 * (1 / 2 + rand w (draws w + 1))) # Called req #
       adapter_trace req 0 k3" by simp
  show ?thesis
    using m t k(1-9) c s l u b
    by (intro exI [of _ k1] exI [of _ k2] exI [of _ k3] exI [of _ e] exI [of _ ?w']) simp
qed

text \<open>
  Two servers, with jitter 0.75, so that the crawler sleeps 3 and 6 seconds before its
  second and third call.  The first refuses every connection: three calls, four attempts
  on the transport in each.  The second answers every request with status 404, which the
  adapter does not retry: three calls, one attempt on the transport in each.
\<close>

theorem request_retries_exhausted_witness:
  "(\<forall>n. request_fails (server (example_world refusing Map.empty) n Get_init_page)) \<and>
   (\<forall>n. is_retry Get_init_page (server (example_world refusing Map.empty) n Get_init_page)) \<and>
   (\<forall>n. 0 \<le> rand (example_world refusing Map.empty) n \<and>
        rand (example_world refusing Map.empty) n \<le> 1) \<and>
   fst (make_request_with_retry Get_init_page (example_world refusing Map.empty)) =
     Inl (ElectionCrawlerError
       (Some (RequestException (TransportFailure (ustr ''connection refused''))))) \<and>
   trace (snd (make_request_with_retry Get_init_page (example_world refusing Map.empty))) =
     [Called Get_init_page,
      Sent Get_init_page, Sent Get_init_page, Slept (3 / 5), Sent Get_init_page, Slept (6 / 5),
      Sent Get_init_page,
      Slept 3, Called Get_init_page,
      Sent Get_init_page, Sent Get_init_page, Slept (3 / 5), Sent Get_init_page, Slept (6 / 5),
      Sent Get_init_page,
      Slept 6, Called Get_init_page,
      Sent Get_init_page, Sent Get_init_page, Slept (3 / 5), Sent Get_init_page, Slept (6 / 5),
      Sent Get_init_page] \<and>
   calls (snd (make_request_with_retry Get_init_page (example_world refusing Map.empty))) = 3 \<and>
   sends (snd (make_request_with_retry Get_init_page (example_world refusing Map.empty))) = 12 \<and>
   (\<forall>n. request_fails (server (example_world (answering missing) Map.empty) n Get_init_page)) \<and>
   (\<forall>n. \<not> is_retry Get_init_page
          (server (example_world (answering missing) Map.empty) n Get_init_page)) \<and>
   fst (make_request_with_retry Get_init_page (example_world (answering missing) Map.empty)) =
     Inl (ElectionCrawlerError (Some (RequestException (HTTPError 404)))) \<and>
   trace (snd (make_request_with_retry Get_init_page
                 (example_world (answering missing) Map.empty))) =
     [Called Get_init_page, Sent Get_init_page,
      Slept 3, Called Get_init_page, Sent Get_init_page,
      Slept 6, Called Get_init_page, Sent Get_init_page] \<and>
   sends (snd (make_request_with_retry Get_init_page
                 (example_world (answering missing) Map.empty))) = 3"
proof -
  let ?w = "example_world refusing Map.empty"
  let ?v = "example_world (answering missing) Map.empty"
  let ?g = "Get_init_page"
  have s: "\<And>n. server ?w n ?g = Fails (RequestException (TransportFailure (ustr ''connection refused'')))"
    by (simp add: example_world_def refusing_def)
  have h: "\<forall>n. request_fails (server ?w n ?g)"
    unfolding s by (simp add: request_fails_def raised_def is_RequestException_def)
  have i: "\<forall>n. is_retry ?g (server ?w n ?g)"
    unfolding s by (simp add: is_retry_def)
  have b: "\<forall>n. 0 \<le> rand ?w n \<and> rand ?w n \<le> 1"
    by (simp add: example_world_def)
  have r: "\<And>n. raised (adapter_result ?g (server ?w n ?g)) =
      Some (RequestException (TransportFailure (ustr ''connection refused'')))"
    unfolding s by (simp add: adapter_result_def exhausted_def raised_def)
  have t: "trace ?w = []" "rand ?w = (\<lambda>n. 1 / 4)" "calls ?w = 0" "sends ?w = 0"
    by (simp_all add: example_world_def calls_def sends_def)
  have f: "1 + MAX_RETRIES = Suc MAX_RETRIES" by simp
  from request_retries_exhausted [OF h] i
  obtain e w' where
    "make_request_with_retry ?g ?w = (Inl (ElectionCrawlerError (Some e)), w')"
    "trace w' = trace ?w @
       Called ?g # adapter_trace ?g 0 (1 + MAX_RETRIES) @
       Slept (RETRY_DELAY * 2 ^ 1 * (1 / 2 + rand ?w (draws ?w))) # Called ?g #
       adapter_trace ?g 0 (1 + MAX_RETRIES) @
       Slept (RETRY_DELAY * 2 ^ 2 * (1 / 2 + rand ?w (draws ?w + 1))) # Called ?g #
       adapter_trace ?g 0 (1 + MAX_RETRIES)"
    "calls w' = calls ?w + MAX_RETRIES"
    "sends w' = sends ?w + (1 + MAX_RETRIES) + (1 + MAX_RETRIES) + (1 + MAX_RETRIES)"
    "raised (adapter_result ?g (server ?w (sends w' - 1) ?g)) = Some e"
    by auto
  then have first: "fst (make_request_with_retry ?g ?w) =
     Inl (ElectionCrawlerError
       (Some (RequestException (TransportFailure (ustr ''connection refused''))))) \<and>
   trace (snd (make_request_with_retry ?g ?w)) =
     [Called ?g, Sent ?g, Sent ?g, Slept (3 / 5), Sent ?g, Slept (6 / 5), Sent ?g,
      Slept 3, Called ?g, Sent ?g, Sent ?g, Slept (3 / 5), Sent ?g, Slept (6 / 5), Sent ?g,
      Slept 6, Called ?g, Sent ?g, Sent ?g, Slept (3 / 5), Sent ?g, Slept (6 / 5), Sent ?g] \<and>
   calls (snd (make_request_with_retry ?g ?w)) = 3 \<and>
   sends (snd (make_request_with_retry ?g ?w)) = 12"
    unfolding r t f adapter_trace_four
    by (simp add: RETRY_DELAY_def MAX_RETRIES_def)
  have c: "status_code missing = 404" by (simp add: missing_def)
  have s': "\<And>n. server ?v n ?g = Responds missing"
    by (simp add: example_world_def answering_def)
  have h': "\<forall>n. request_fails (server ?v n ?g)"
    unfolding s' by (simp add: request_fails_def raised_def raise_for_status_def c
        is_RequestException_def)
  have i': "\<forall>n. \<not> is_retry ?g (server ?v n ?g)"
    unfolding s' by (simp add: is_retry_def status_forcelist_def c)
  have r': "\<And>n. raised (adapter_result ?g (server ?v n ?g)) =
      Some (RequestException (HTTPError 404))"
    unfolding s' by (simp add: adapter_result_def raised_def raise_for_status_def is_retry_def
        status_forcelist_def c)
  have t': "trace ?v = []" "rand ?v = (\<lambda>n. 1 / 4)" "calls ?v = 0" "sends ?v = 0"
    by (simp_all add: example_world_def calls_def sends_def)
  from request_retries_exhausted [OF h'] i'
  obtain e' v' where
    "make_request_with_retry ?g ?v = (Inl (ElectionCrawlerError (Some e')), v')"
    "trace v' = trace ?v @
       Called ?g # adapter_trace ?g 0 1 @
       Slept (RETRY_DELAY * 2 ^ 1 * (1 / 2 + rand ?v (draws ?v))) # Called ?g #
       adapter_trace ?g 0 1 @
       Slept (RETRY_DELAY * 2 ^ 2 * (1 / 2 + rand ?v (draws ?v + 1))) # Called ?g #
       adapter_trace ?g 0 1"
    "sends v' = sends ?v + 1 + 1 + 1"
    "raised (adapter_result ?g (server ?v (sends v' - 1) ?g)) = Some e'"
    by auto
  then have second: "fst (make_request_with_retry ?g ?v) =
     Inl (ElectionCrawlerError (Some (RequestException (HTTPError 404)))) \<and>
   trace (snd (make_request_with_retry ?g ?v)) =
     [Called ?g, Sent ?g, Slept 3, Called ?g, Sent ?g, Slept 6, Called ?g, Sent ?g] \<and>
   sends (snd (make_request_with_retry ?g ?v)) = 3"
    unfolding r' t' adapter_trace_one
    by (simp add: RETRY_DELAY_def)
  show ?thesis
    using h i b first h' i' second by blast
qed

section \<open>The sub-region lookup\<close>

lemma retry_refusing:
  "fst (make_request_with_retry req (example_world refusing fs)) =
     Inl (ElectionCrawlerError
       (Some (RequestException (TransportFailure (ustr ''connection refused'')))))"
  by (rule retry_same_failure)
    (simp_all add: example_world_def refusing_def is_RequestException_def)

text \<open>
  Claim C5 says that the sub-region lookup never raises and returns the empty list on any
  network or parsing failure.  When every attempt of the request fails,
  \<^verbatim>\<open>_make_request_with_retry\<close> raises \<^verbatim>\<open>ElectionCrawlerError\<close>, which the handler of
  \<^verbatim>\<open>get_town_codes_for_city\<close> does not catch: the lookup raises.
\<close>

theorem town_codes_lookup_raises:
  "fst (get_town_codes_for_city cr (JStr (ustr ''11'')) (example_world refusing Map.empty)) =
     Inl (ElectionCrawlerError
       (Some (RequestException (TransportFailure (ustr ''connection refused'')))))"
  using retry_refusing [of "Get_town_codes (election_id cr) (JStr (ustr ''11''))" Map.empty]
  by (auto simp: get_town_codes_for_city_def is_RequestException_def is_ValueError_def
      split: prod.splits sum.splits)

text \<open>
  An object that is no envelope, and an item without a name, raise exceptions that the
  handler does not catch either; an envelope is read as the specification says.
\<close>

lemma parse_town_codes_bare_object:
  "parse_town_codes \<lparr>status_code = 200, content_type_header = None, content_disposition_header = None,
     body = [], body_ok = True,
     json_body = Some (JObj [(ustr ''error'', JStr (ustr ''no data''))]),
     soup = \<lparr>city_select = None, town_select = None\<rparr>\<rparr> = Inl AttributeError"
  by (simp add: parse_town_codes_def town_data_of_def py_in_def py_iter_def py_get_def ustr_def)

lemma parse_town_codes_missing_name:
  "parse_town_codes \<lparr>status_code = 200, content_type_header = None, content_disposition_header = None,
     body = [], body_ok = True,
     json_body = Some (JArr [JObj [(ustr ''CODE'', JStr (ustr ''1101''))]]),
     soup = \<lparr>city_select = None, town_select = None\<rparr>\<rparr> = Inl KeyError"
  by (simp add: parse_town_codes_def town_data_of_def py_in_def py_iter_def py_get_def
      py_getitem_def ustr_def)

lemma parse_town_codes_envelope:
  "parse_town_codes \<lparr>status_code = 200, content_type_header = None, content_disposition_header = None,
     body = [], body_ok = True,
     json_body = Some (JObj [(ustr ''jsonResult'', JObj [(ustr ''body'', JArr
        [JObj [(ustr ''CODE'', JStr (ustr ''-1'')), (ustr ''NAME'', JStr (ustr ''all''))],
         JObj [(ustr ''CODE'', JStr (ustr ''1101'')), (ustr ''NAME'', JStr (ustr ''A''))]])])]),
     soup = \<lparr>city_select = None, town_select = None\<rparr>\<rparr> =
   Inr [\<lparr>code = JStr (ustr ''1101''), name = JStr (ustr ''A'')\<rparr>]"
  by (simp add: parse_town_codes_def town_data_of_def py_in_def py_iter_def py_get_def
      py_getitem_def ustr_def)

text \<open>What the handler does catch: a body that is not JSON gives the empty list.\<close>

lemma town_codes_malformed_json:
  "make_request_with_retry (Get_town_codes (election_id cr) city_code) w = (Inr response, w1) \<Longrightarrow>
   json_body response = None \<Longrightarrow>
   get_town_codes_for_city cr city_code w = (Inr [], w1)"
  by (simp add: get_town_codes_for_city_def parse_town_codes_def is_ValueError_def)

section \<open>The content classifier\<close>

text \<open>
  When the body can be read, the classifier is the chain of the header rules, the marker
  rule and the signature rule; the handler for undecodable content is never entered.
\<close>

lemma detect_content_type_chain:
  assumes "body_ok response"
  shows "detect_content_type response =
     Inr (let content_type = lower (case content_type_header response of None \<Rightarrow> [] | Some v \<Rightarrow> v) in
          if contains (ustr ''text/html'') content_type \<or>
             contains (ustr ''application/html'') content_type then Html
          else if contains (ustr ''application/vnd.ms-excel'') content_type \<or>
             contains (ustr ''application/excel'') content_type then Excel
          else if \<exists>indicator \<in> set html_indicators.
               contains indicator (lower (decode_ignore (take 4096 (body response)))) then Html
          else if starts_with OLE2_header (take 8 (body response)) \<or>
               starts_with ZIP_header (take 8 (body response)) then Excel
          else Unknown)"
  using assms by (simp add: detect_content_type_def inspect_content_def content_def Let_def)

lemma lower_octet:
  "lower (ustr ''application/octet-stream'') = ustr ''application/octet-stream''"
  by (simp add: lower_def lower_char_def ustr_def)

lemma octet_no_match:
  "\<not> contains (ustr ''text/html'') (ustr ''application/octet-stream'')"
  "\<not> contains (ustr ''application/html'') (ustr ''application/octet-stream'')"
  "\<not> contains (ustr ''application/vnd.ms-excel'') (ustr ''application/octet-stream'')"
  "\<not> contains (ustr ''application/excel'') (ustr ''application/octet-stream'')"
  by (simp_all add: ustr_def starts_with_def)

text \<open>
  Claim C1 lists, as rule 5 of the chain, that a byte prefix that cannot be decoded as text
  is a spreadsheet, as the comment in the handler of \<^verbatim>\<open>_detect_content_type\<close> says.  The code
  decodes with \<^verbatim>\<open>errors='ignore'\<close>, which never fails: on the bytes \<open>ff fe fd\<close>, of which none
  can be decoded, it answers \<open>unknown\<close> where the chain of the claim answers spreadsheet.
\<close>

theorem detect_content_type_undecodable:
  "\<not> decodable [CHR 0xFF, CHR 0xFE, CHR 0xFD] \<and>
   detect_content_type
     (example_response (Some (ustr ''application/octet-stream'')) None
        [CHR 0xFF, CHR 0xFE, CHR 0xFD]) = Inr Unknown \<and>
   spec_classify (ustr ''application/octet-stream'') [CHR 0xFF, CHR 0xFE, CHR 0xFD] = Excel"
proof -
  have d: "decode_ignore [CHR 0xFF, CHR 0xFE, CHR 0xFD] = []"
    by (simp add: decode_ignore_def)
  have n: "\<not> decodable [CHR 0xFF, CHR 0xFE, CHR 0xFD]"
    by (simp add: decodable_def)
  have m: "\<not> (\<exists>indicator \<in> set html_indicators. contains indicator [])"
    by (simp add: html_indicators_def ustr_def)
  have s: "\<not> starts_with OLE2_header [CHR 0xFF, CHR 0xFE, CHR 0xFD]"
     "\<not> starts_with ZIP_header [CHR 0xFF, CHR 0xFE, CHR 0xFD]"
    by (simp_all add: starts_with_def OLE2_header_def ZIP_header_def)
  have l: "lower [] = []" by (simp add: lower_def)
  have c: "detect_content_type
     (example_response (Some (ustr ''application/octet-stream'')) None
        [CHR 0xFF, CHR 0xFE, CHR 0xFD]) = Inr Unknown"
    using m s
    by (simp add: detect_content_type_chain example_response_def lower_octet octet_no_match d l)
  have p: "spec_classify (ustr ''application/octet-stream'') [CHR 0xFF, CHR 0xFE, CHR 0xFD] = Excel"
    using m s n by (simp add: spec_classify_def octet_no_match d l)
  show ?thesis using n c p by simp
qed

text \<open>
  The rest of the claim holds: on content that can be decoded the code is the chain of the
  specification, a spreadsheet answer comes from the header rule or the signature rule
  only, and the ZIP signature under the header \<open>application/octet-stream\<close> is a spreadsheet.
\<close>

lemma detect_content_type_spec:
  assumes "body_ok response" and "decodable (take 4096 (body response))"
  shows "detect_content_type response =
     Inr (spec_classify (lower (case content_type_header response of None \<Rightarrow> [] | Some v \<Rightarrow> v))
            (body response))"
  using assms by (simp add: detect_content_type_chain spec_classify_def Let_def)

lemma detect_content_type_zip:
  "detect_content_type
     (example_response (Some (ustr ''application/octet-stream'')) None
        [CHR ''P'', CHR ''K'', CHR 0x03, CHR 0x04]) = Inr Excel"
proof -
  have d: "lower (decode_ignore [CHR ''P'', CHR ''K'', CHR 0x03, CHR 0x04]) = [0x70, 0x6B, 3, 4]"
    by (simp add: decode_ignore_def lower_def lower_char_def)
  have m: "\<not> (\<exists>indicator \<in> set html_indicators. contains indicator [0x70, 0x6B, 3, 4])"
    by (simp add: html_indicators_def ustr_def starts_with_def)
  have s: "starts_with ZIP_header [CHR ''P'', CHR ''K'', CHR 0x03, CHR 0x04]"
    by (simp add: starts_with_def ZIP_header_def)
  show ?thesis
    using m s
    by (simp add: detect_content_type_chain example_response_def lower_octet octet_no_match d)
qed

lemma detect_content_type_handler_unused:
  "detect_content_type response = Inr Excel \<Longrightarrow>
   contains (ustr ''application/vnd.ms-excel'')
     (lower (case content_type_header response of None \<Rightarrow> [] | Some v \<Rightarrow> v)) \<or>
   contains (ustr ''application/excel'')
     (lower (case content_type_header response of None \<Rightarrow> [] | Some v \<Rightarrow> v)) \<or>
   starts_with OLE2_header (take 8 (body response)) \<or>
   starts_with ZIP_header (take 8 (body response))"
  by (auto simp: detect_content_type_def inspect_content_def content_def Let_def
      split: if_splits sum.splits option.splits)

section \<open>File names\<close>

lemma replace_invalid_map:
  "foldl (\<lambda>f char. replace_char char 0x5F f) filename invalid_chars =
   map (\<lambda>c. if c \<in> set invalid_chars then 0x5F else c) filename"
  by (simp add: invalid_chars_def replace_char_def)

lemma set_strip: "set (strip s) \<subseteq> set s"
proof
  fix x assume "x \<in> set (strip s)"
  then have "x \<in> set (dropWhile isspace (rev (dropWhile isspace s)))"
    by (simp add: strip_def)
  then have "x \<in> set (rev (dropWhile isspace s))" by (rule set_dropWhileD)
  then have "x \<in> set (dropWhile isspace s)" by simp
  then show "x \<in> set s" by (rule set_dropWhileD)
qed

lemma length_strip: "length (strip s) \<le> length s"
proof -
  have a: "length (dropWhile isspace (rev (dropWhile isspace s))) \<le> length (rev (dropWhile isspace s))"
    by (rule length_dropWhile_le)
  have b: "length (dropWhile isspace s) \<le> length s" by (rule length_dropWhile_le)
  show ?thesis using a b by (simp add: strip_def)
qed

lemma set_splitext: "set (fst (splitext p)) \<subseteq> set p" "set (snd (splitext p)) \<subseteq> set p"
  by (auto simp: splitext_def Let_def split: option.splits dest: in_set_takeD in_set_dropD)

lemma sanitize_filename_eq:
  "sanitize_filename f =
     strip (if length f > 200
            then take 195 (fst (splitext (map (\<lambda>c. if c \<in> set invalid_chars then 0x5F else c) f))) @
                 snd (splitext (map (\<lambda>c. if c \<in> set invalid_chars then 0x5F else c) f))
            else map (\<lambda>c. if c \<in> set invalid_chars then 0x5F else c) f)"
  unfolding sanitize_filename_def replace_invalid_map by (simp add: Let_def split: prod.splits)

lemma sanitize_filename_valid: "set (sanitize_filename f) \<inter> set invalid_chars = {}"
proof -
  define f1 where "f1 = map (\<lambda>c. if c \<in> set invalid_chars then 0x5F else c) f"
  define f2 where "f2 = (if length f > 200 then take 195 (fst (splitext f1)) @ snd (splitext f1) else f1)"
  have 1: "set f1 \<inter> set invalid_chars = {}" by (auto simp: f1_def invalid_chars_def)
  have "set (take 195 (fst (splitext f1))) \<subseteq> set f1"
    using set_splitext(1) [of f1] set_take_subset [of 195 "fst (splitext f1)"] by blast
  then have "set f2 \<subseteq> set f1"
    using set_splitext(2) [of f1] by (auto simp: f2_def)
  then have "set (strip f2) \<subseteq> set f1" using set_strip [of f2] by blast
  moreover have "sanitize_filename f = strip f2"
    unfolding sanitize_filename_eq f2_def f1_def ..
  ultimately show ?thesis using 1 by auto
qed

lemma sanitize_filename_length:
  "length (sanitize_filename f) \<le>
   max 200 (195 + length (snd (splitext (map (\<lambda>c. if c \<in> set invalid_chars then 0x5F else c) f))))"
proof -
  define f1 where "f1 = map (\<lambda>c. if c \<in> set invalid_chars then 0x5F else c) f"
  define f2 where "f2 = (if length f > 200 then take 195 (fst (splitext f1)) @ snd (splitext f1) else f1)"
  have "length f1 = length f" by (simp add: f1_def)
  then have l: "length f2 \<le> max 200 (195 + length (snd (splitext f1)))" by (auto simp: f2_def)
  have "sanitize_filename f = strip f2"
    unfolding sanitize_filename_eq f2_def f1_def ..
  then have "length (sanitize_filename f) \<le> length f2" using length_strip [of f2] by simp
  then show ?thesis using l unfolding f1_def by (rule le_trans)
qed

lemma after_first_None: "after_first p s = None \<longleftrightarrow> \<not> contains p s"
  by (induction s) (auto simp: starts_with_def)

lemma header_base_filename_eq:
  "header_base_filename cd =
     (if contains (ustr ''filename='') cd then Some (fst (splitext (disposition_filename cd)))
      else None)"
proof (cases "contains (ustr ''filename='') cd")
  case True
  then obtain r where "after_first (ustr ''filename='') cd = Some r"
    using after_first_None [of "ustr ''filename=''" cd] by auto
  then show ?thesis using True
    by (simp add: header_base_filename_def disposition_filename_def split_second_def Let_def)
next
  case False
  then show ?thesis by (simp add: header_base_filename_def)
qed

lemma get_filename_resolved_base:
  "detect_content_type response = Inr k \<Longrightarrow>
   get_filename_from_response response city_code town_code w =
     Inr (resolved_base response city_code town_code w @ extension k)"
  by (auto simp: get_filename_from_response_def resolved_base_def header_base_filename_eq Let_def
      split: option.splits)

lemma fallback_nonempty: "fallback_filename c t n \<noteq> []"
  by (simp add: fallback_filename_def ustr_def)

lemma resolved_base_nonempty: "resolved_base response city_code town_code w \<noteq> []"
  by (auto simp: resolved_base_def fallback_nonempty split: option.splits)

text \<open>
  Claim C7, amended.  When the classifier answers, the file name is a base followed by
  \<open>.xls\<close> for a spreadsheet and by \<open>.html\<close> for html or unknown content.  The base is never
  empty.  It is the file name of the \<^verbatim>\<open>Content-Disposition\<close> header with its extension
  removed, when the header is present, contains \<open>filename=\<close> and that base is not empty;
  it then holds none of the characters \<^verbatim>\<open><>:"/\|?*\<close>.  Otherwise the base is
  \<open>election_report_{city}_{town}_{timestamp}\<close>.  A sanitized name holds none of those
  characters, and it has at most 200 characters when its extension has at most 5.
\<close>

theorem filename_resolution:
  assumes "detect_content_type response = Inr k"
  shows "get_filename_from_response response city_code town_code w =
           Inr (resolved_base response city_code town_code w @
                (if k = Excel then ustr ''.xls'' else ustr ''.html'')) \<and>
         resolved_base response city_code town_code w \<noteq> [] \<and>
         (\<forall>cd. content_disposition_header response = Some cd \<and>
               contains (ustr ''filename='') cd \<and> fst (splitext (disposition_filename cd)) \<noteq> [] \<longrightarrow>
            resolved_base response city_code town_code w = fst (splitext (disposition_filename cd)) \<and>
            set (fst (splitext (disposition_filename cd))) \<inter> set invalid_chars = {}) \<and>
         ((\<forall>cd. content_disposition_header response = Some cd \<longrightarrow>
               \<not> contains (ustr ''filename='') cd \<or> fst (splitext (disposition_filename cd)) = []) \<longrightarrow>
            resolved_base response city_code town_code w =
              ustr ''election_report_'' @ fmt city_code @ ustr ''_'' @ fmt town_code @ ustr ''_'' @
              decimal (time_now w)) \<and>
         (\<forall>f. set (sanitize_filename f) \<inter> set invalid_chars = {} \<and>
              (length (snd (splitext
                 (map (\<lambda>c. if c \<in> set invalid_chars then 0x5F else c) f))) \<le> 5 \<longrightarrow>
               length (sanitize_filename f) \<le> 200))"
proof -
  have 1: "get_filename_from_response response city_code town_code w =
           Inr (resolved_base response city_code town_code w @
                (if k = Excel then ustr ''.xls'' else ustr ''.html''))"
    using get_filename_resolved_base [OF assms] by (cases k) (simp_all add: extension_def)
  have 3: "\<forall>cd. content_disposition_header response = Some cd \<and>
               contains (ustr ''filename='') cd \<and> fst (splitext (disposition_filename cd)) \<noteq> [] \<longrightarrow>
            resolved_base response city_code town_code w = fst (splitext (disposition_filename cd)) \<and>
            set (fst (splitext (disposition_filename cd))) \<inter> set invalid_chars = {}"
  proof (intro allI impI)
    fix cd assume h: "content_disposition_header response = Some cd \<and>
               contains (ustr ''filename='') cd \<and> fst (splitext (disposition_filename cd)) \<noteq> []"
    then obtain part where p: "disposition_filename cd = sanitize_filename part"
      using after_first_None [of "ustr ''filename=''" cd]
      by (auto simp: disposition_filename_def split_second_def)
    have "set (fst (splitext (disposition_filename cd))) \<inter> set invalid_chars = {}"
      using sanitize_filename_valid [of part] set_splitext(1) [of "disposition_filename cd"] p
      by auto
    then show "resolved_base response city_code town_code w = fst (splitext (disposition_filename cd)) \<and>
            set (fst (splitext (disposition_filename cd))) \<inter> set invalid_chars = {}"
      using h by (simp add: resolved_base_def)
  qed
  have 4: "(\<forall>cd. content_disposition_header response = Some cd \<longrightarrow>
               \<not> contains (ustr ''filename='') cd \<or> fst (splitext (disposition_filename cd)) = []) \<longrightarrow>
            resolved_base response city_code town_code w =
              ustr ''election_report_'' @ fmt city_code @ ustr ''_'' @ fmt town_code @ ustr ''_'' @
              decimal (time_now w)"
    by (auto simp: resolved_base_def fallback_filename_def split: option.splits)
  have 5: "\<forall>f. set (sanitize_filename f) \<inter> set invalid_chars = {} \<and>
              (length (snd (splitext
                 (map (\<lambda>c. if c \<in> set invalid_chars then 0x5F else c) f))) \<le> 5 \<longrightarrow>
               length (sanitize_filename f) \<le> 200)"
  proof (intro allI conjI impI)
    fix f
    show "set (sanitize_filename f) \<inter> set invalid_chars = {}" by (rule sanitize_filename_valid)
    assume "length (snd (splitext
                 (map (\<lambda>c. if c \<in> set invalid_chars then 0x5F else c) f))) \<le> 5"
    then show "length (sanitize_filename f) \<le> 200"
      using sanitize_filename_length [of f] by simp
  qed
  show ?thesis
    using 1 resolved_base_nonempty 3 4 5 by blast
qed

lemma disposition_filename_report:
  "disposition_filename (ustr ''attachment; filename=report.xls'') = ustr ''report.xls''"
  by (simp add: disposition_filename_def split_second_def sanitize_filename_def unquote_plus_def
      unquote_def strip_chars_def strip_def isspace_def splitext_def rfind_def replace_char_def
      invalid_chars_def starts_with_def ustr_def)

lemma splitext_report: "splitext (ustr ''report.xls'') = (ustr ''report'', ustr ''.xls'')"
  by (simp add: splitext_def rfind_def ustr_def)

lemma contains_report: "contains (ustr ''filename='') (ustr ''attachment; filename=report.xls'')"
  by (simp add: starts_with_def ustr_def)

lemma ustr_append: "ustr a @ ustr b = ustr (a @ b)"
  by (simp add: ustr_def)

lemma ustr_nonempty: "ustr (c # cs) \<noteq> []"
  by (simp add: ustr_def)

lemma example_response_sel:
  "content_type_header (example_response ct cd bytes) = ct"
  "content_disposition_header (example_response ct cd bytes) = cd"
  "body (example_response ct cd bytes) = bytes"
  "body_ok (example_response ct cd bytes)"
  by (simp_all add: example_response_def)

lemma detect_html_header:
  "detect_content_type (example_response (Some (ustr ''text/html'')) cd bytes) = Inr Html"
proof -
  have "contains (ustr ''text/html'') (lower (ustr ''text/html''))"
    by (simp add: lower_def lower_char_def ustr_def starts_with_def)
  then show ?thesis by (simp add: detect_content_type_def example_response_sel)
qed

lemma resolved_base_report:
  "resolved_base (example_response ct (Some (ustr ''attachment; filename=report.xls'')) bytes)
     city_code town_code w = ustr ''report''"
  using contains_report
  by (simp add: resolved_base_def example_response_sel disposition_filename_report
      splitext_report ustr_nonempty)

text \<open>
  Claim C7 as it is stated takes the whole file name of the header, extension included,
  as the base.  For the header \<open>attachment; filename=report.xls\<close> and HTML content that
  would be \<open>report.xls.html\<close>; the code removes the extension first and answers
  \<open>report.html\<close>.
\<close>

theorem filename_keeps_extension_counterexample:
  "get_filename_from_response
     (example_response (Some (ustr ''text/html''))
        (Some (ustr ''attachment; filename=report.xls'')) [])
     (JStr (ustr ''11'')) (JStr (ustr ''1101'')) (example_world refusing Map.empty) =
     Inr (ustr ''report.html'') \<and>
   spec_filename
     (example_response (Some (ustr ''text/html''))
        (Some (ustr ''attachment; filename=report.xls'')) [])
     (JStr (ustr ''11'')) (JStr (ustr ''1101'')) (example_world refusing Map.empty) Html =
     ustr ''report.xls.html'' \<and>
   get_filename_from_response
     (example_response (Some (ustr ''text/html''))
        (Some (ustr ''attachment; filename=report.xls'')) [])
     (JStr (ustr ''11'')) (JStr (ustr ''1101'')) (example_world refusing Map.empty) \<noteq>
   Inr (spec_filename
     (example_response (Some (ustr ''text/html''))
        (Some (ustr ''attachment; filename=report.xls'')) [])
     (JStr (ustr ''11'')) (JStr (ustr ''1101'')) (example_world refusing Map.empty) Html)"
proof -
  have e: "extension Html = ustr ''.html''" by (simp add: extension_def)
  have 1: "get_filename_from_response
     (example_response (Some (ustr ''text/html''))
        (Some (ustr ''attachment; filename=report.xls'')) [])
     (JStr (ustr ''11'')) (JStr (ustr ''1101'')) (example_world refusing Map.empty) =
     Inr (ustr ''report.html'')"
    by (simp add: get_filename_resolved_base [OF detect_html_header] resolved_base_report e
        ustr_append)
  have 2: "spec_filename
     (example_response (Some (ustr ''text/html''))
        (Some (ustr ''attachment; filename=report.xls'')) [])
     (JStr (ustr ''11'')) (JStr (ustr ''1101'')) (example_world refusing Map.empty) Html =
     ustr ''report.xls.html''"
    using contains_report
    by (simp add: spec_filename_def e disposition_filename_report example_response_sel
        ustr_append)
  have 3: "ustr ''report.html'' \<noteq> ustr ''report.xls.html''" by (simp add: ustr_def)
  show ?thesis unfolding 1 2 using 3 by simp
qed

text \<open>The header name and the fallback name at concrete responses.\<close>

theorem filename_resolution_witness:
  "detect_content_type
     (example_response (Some (ustr ''text/html''))
        (Some (ustr ''attachment; filename=report.xls'')) []) = Inr Html \<and>
   get_filename_from_response
     (example_response (Some (ustr ''text/html''))
        (Some (ustr ''attachment; filename=report.xls'')) [])
     (JStr (ustr ''11'')) (JStr (ustr ''1101'')) (example_world refusing Map.empty) =
     Inr (ustr ''report.html'') \<and>
   get_filename_from_response
     (example_response (Some (ustr ''text/html'')) None [])
     (JStr (ustr ''11'')) (JStr (ustr ''1101'')) (example_world refusing Map.empty) =
     Inr (ustr ''election_report_11_1101_1700000000.html'')"
proof -
  let ?r = "example_response (Some (ustr ''text/html''))
        (Some (ustr ''attachment; filename=report.xls'')) []"
  let ?s = "example_response (Some (ustr ''text/html'')) None []"
  let ?w = "example_world refusing Map.empty"
  have d: "detect_content_type ?r = Inr Html" "detect_content_type ?s = Inr Html"
    by (rule detect_html_header)+
  have t: "decimal 1700000000 = ustr ''1700000000''"
    by (simp add: decimal.simps ustr_def)
  have b0: "resolved_base ?s (JStr (ustr ''11'')) (JStr (ustr ''1101'')) ?w =
      ustr ''election_report_11_1101_1700000000''"
    by (simp add: resolved_base_def example_response_sel fallback_filename_def time_now_def
        example_world_def t ustr_append)
  have 1: "get_filename_from_response ?r (JStr (ustr ''11'')) (JStr (ustr ''1101'')) ?w =
      Inr (ustr ''report.html'')"
    using filename_resolution [OF d(1), of "JStr (ustr ''11'')" "JStr (ustr ''1101'')" ?w]
    unfolding resolved_base_report by (simp add: ustr_append)
  have 2: "get_filename_from_response ?s (JStr (ustr ''11'')) (JStr (ustr ''1101'')) ?w =
      Inr (ustr ''election_report_11_1101_1700000000.html'')"
    using filename_resolution [OF d(2), of "JStr (ustr ''11'')" "JStr (ustr ''1101'')" ?w]
    unfolding b0 by (simp add: ustr_append)
  show ?thesis using d(1) 1 2 by simp
qed

text \<open>
  The bound of 200 characters needs the short extension: the cut keeps the first 195
  characters of the stem and the whole extension.
\<close>

lemma sanitize_filename_long_extension:
  "length (sanitize_filename (replicate 150 0x61 @ [0x2E] @ replicate 60 0x62)) = 211"
proof -
  let ?f = "replicate 150 0x61 @ [0x2E] @ replicate 60 (0x62::nat)"
  have m: "map (\<lambda>c. if c \<in> set invalid_chars then 0x5F else c) ?f = ?f"
    by (simp add: invalid_chars_def)
  have r: "rfind 0x2E ?f = Some 150" "rfind 0x2F ?f = None"
    by (simp_all add: rfind_def takeWhile_replicate takeWhile_append)
  have s: "splitext ?f = (replicate 150 0x61, [0x2E] @ replicate 60 0x62)"
    unfolding splitext_def r by simp
  have t: "strip ?f = ?f"
    by (simp add: strip_def isspace_def dropWhile_append dropWhile_replicate)
  show ?thesis unfolding sanitize_filename_eq m s using t by simp
qed

section \<open>The download task\<close>

lemma same_store_refl [simp]: "same_store w w"
  by (simp add: same_store_def)

lemma same_store_trans: "same_store w w1 \<Longrightarrow> same_store w1 w2 \<Longrightarrow> same_store w w2"
  by (simp add: same_store_def)

lemma session_request_store: "session_request req w = (out, w') \<Longrightarrow> same_store w w'"
  using session_request_events [of req w] by (auto simp: same_store_def)

lemma attempt_request_store: "attempt_request attempt req w = (res, w') \<Longrightarrow> same_store w w'"
proof -
  assume a: "attempt_request attempt req w = (res, w')"
  let ?w1 = "if attempt > 0 then
                  (let (jitter, wj) = uniform (1 / 2) (3 / 2) w;
                       delay = RETRY_DELAY * 2 ^ attempt * jitter
                   in sleep delay wj)
                else w"
  have s: "same_store w ?w1"
    by (simp add: uniform_def sleep_def same_store_def)
  obtain out w2 where r: "session_request req ?w1 = (out, w2)"
    by (cases "session_request req ?w1")
  have "w' = w2"
    using a r unfolding attempt_request_def by (auto simp: Let_def split: outcome.splits)
  then show ?thesis
    using s session_request_store [OF r] same_store_trans by blast
qed

lemma request_attempts_store: "request_attempts attempt req w = (res, w') \<Longrightarrow> same_store w w'"
proof (induction attempt req w arbitrary: res w' rule: request_attempts.induct)
  case (1 attempt req w)
  show ?case
  proof (cases "attempt < MAX_RETRIES")
    case False
    then show ?thesis using "1.prems" by (subst (asm) request_attempts.simps) auto
  next
    case True
    obtain r w2 where a: "attempt_request attempt req w = (r, w2)" by (cases "attempt_request attempt req w")
    have s: "same_store w w2" using a by (rule attempt_request_store)
    show ?thesis
    proof (cases r)
      case (Inr resp)
      then show ?thesis using "1.prems" True a s by (subst (asm) request_attempts.simps) auto
    next
      case (Inl e)
      show ?thesis
      proof (cases "is_RequestException e \<and> attempt \<noteq> MAX_RETRIES - 1")
        case True
        then have "request_attempts (Suc attempt) req w2 = (res, w')"
          using "1.prems" \<open>attempt < MAX_RETRIES\<close> a Inl
          by (subst (asm) request_attempts.simps) auto
        then have "same_store w2 w'"
          using "1.IH" [OF \<open>attempt < MAX_RETRIES\<close> a [symmetric] Inl] True by auto
        then show ?thesis using s same_store_trans by blast
      next
        case False
        then show ?thesis using "1.prems" \<open>attempt < MAX_RETRIES\<close> a Inl s
          by (subst (asm) request_attempts.simps) (auto split: if_splits)
      qed
    qed
  qed
qed

lemma make_request_store: "make_request_with_retry req w = (res, w') \<Longrightarrow> same_store w w'"
  unfolding make_request_with_retry_def by (rule request_attempts_store)

lemma write_response_stats: "write_response p r w = (res, w') \<Longrightarrow> stats w' = stats w"
  by (auto simp: write_response_def Let_def split: if_splits)

lemma download_attempt_stats:
  assumes "download_attempt payload city_code town_code w = (res, w')"
  shows "(\<exists>e. res = Inl e \<and> stats w' = stats w) \<or>
         (\<exists>w1. res = Inr True \<and> w' = count_skipped w1 \<and> stats w1 = stats w) \<or>
         (\<exists>w2 n. res = Inr True \<and> w' = count_downloaded n w2 \<and> stats w2 = stats w) \<or>
         (\<exists>w2. res = Inr False \<and> w' = count_error w2 \<and> stats w2 = stats w)"
proof -
  obtain r w1 where m: "make_request_with_retry (Post_report payload) w = (r, w1)"
    by (cases "make_request_with_retry (Post_report payload) w")
  have s1: "stats w1 = stats w" using make_request_store [OF m] by (simp add: same_store_def)
  show ?thesis
  proof (cases r)
    case (Inl e)
    then have "res = Inl e \<and> w' = w1" using assms m by (simp add: download_attempt_def)
    then show ?thesis using s1 by simp
  next
    case (Inr response)
    show ?thesis
    proof (cases "get_filename_from_response response city_code town_code w1")
      case (Inl e)
      then have "res = Inl e \<and> w' = w1" using assms m Inr by (simp add: download_attempt_def)
      then show ?thesis using s1 by simp
    next
      case f: (Inr filename)
      show ?thesis
      proof (cases "file_exists_and_valid filename w1")
        case (Inl e)
        then have "res = Inl e \<and> w' = w1" using assms m Inr f by (simp add: download_attempt_def)
        then show ?thesis using s1 by simp
      next
        case v: (Inr valid)
        show ?thesis
        proof (cases valid)
          case True
          then have "res = Inr True \<and> w' = count_skipped w1"
            using assms m Inr f v by (simp add: download_attempt_def)
          then show ?thesis using s1 by blast
        next
          case False
          obtain wr w2 where wr: "write_response filename response w1 = (wr, w2)"
            by (cases "write_response filename response w1")
          have s2: "stats w2 = stats w" using write_response_stats [OF wr] s1 by simp
          show ?thesis
          proof (cases wr)
            case (Inl e)
            then have "res = Inl e \<and> w' = w2"
              using assms m Inr f v False wr by (simp add: download_attempt_def)
            then show ?thesis using s2 by simp
          next
            case n: (Inr n)
            show ?thesis
            proof (cases "validate_downloaded_content filename w2")
              case True
              then have "res = Inr True \<and> w' = count_downloaded n w2"
                using assms m Inr f v False wr n by (simp add: download_attempt_def)
              then show ?thesis using s2 by blast
            next
              case no: False
              then have "res = Inr False \<and> w' = count_error w2"
                using assms m Inr f v False wr n by (simp add: download_attempt_def)
              then show ?thesis using s2 by blast
            qed
          qed
        qed
      qed
    qed
  qed
qed

text \<open>
  Claim C10.  A call of \<^verbatim>\<open>download_excel_for_location\<close> adds one to exactly one of the
  counters \<open>downloaded\<close>, \<open>skipped\<close> and \<open>errors\<close> and leaves the other two as they are; it
  returns \<open>True\<close> exactly when the counter is \<open>downloaded\<close> or \<open>skipped\<close>; and \<open>total_size\<close>
  never decreases and changes only in a call that adds to \<open>downloaded\<close>.
\<close>

theorem download_counts_once:
  "(downloaded (stats (snd (download_excel_for_location cr cc cn tc tn w))) = downloaded (stats w) + 1 \<and>
    skipped (stats (snd (download_excel_for_location cr cc cn tc tn w))) = skipped (stats w) \<and>
    errors (stats (snd (download_excel_for_location cr cc cn tc tn w))) = errors (stats w) \<and>
    fst (download_excel_for_location cr cc cn tc tn w)
    \<or>
    downloaded (stats (snd (download_excel_for_location cr cc cn tc tn w))) = downloaded (stats w) \<and>
    skipped (stats (snd (download_excel_for_location cr cc cn tc tn w))) = skipped (stats w) + 1 \<and>
    errors (stats (snd (download_excel_for_location cr cc cn tc tn w))) = errors (stats w) \<and>
    total_size (stats (snd (download_excel_for_location cr cc cn tc tn w))) = total_size (stats w) \<and>
    fst (download_excel_for_location cr cc cn tc tn w)
    \<or>
    downloaded (stats (snd (download_excel_for_location cr cc cn tc tn w))) = downloaded (stats w) \<and>
    skipped (stats (snd (download_excel_for_location cr cc cn tc tn w))) = skipped (stats w) \<and>
    errors (stats (snd (download_excel_for_location cr cc cn tc tn w))) = errors (stats w) + 1 \<and>
    total_size (stats (snd (download_excel_for_location cr cc cn tc tn w))) = total_size (stats w) \<and>
    \<not> fst (download_excel_for_location cr cc cn tc tn w)) \<and>
   total_size (stats w) \<le> total_size (stats (snd (download_excel_for_location cr cc cn tc tn w)))"
proof -
  let ?p = "report_payload cr cc cn tc tn"
  obtain res w' where d: "download_attempt ?p cc tc w = (res, w')"
    by (cases "download_attempt ?p cc tc w")
  from download_attempt_stats [OF d] show ?thesis
    using d
    by (auto simp: download_excel_for_location_def count_skipped_def count_error_def
        count_downloaded_def)
qed

lemma request_first_success:
  assumes "server w (sends w) req = Responds r"
    and "\<not> (400 \<le> status_code r \<and> status_code r < 600)"
  shows "make_request_with_retry req w = (Inr r, w\<lparr>trace := trace w @ [Called req, Sent req]\<rparr>)"
proof -
  let ?w1 = "w\<lparr>trace := trace w @ [Called req]\<rparr>"
  have "\<not> is_retry req (Responds r)"
    using assms(2) by (auto simp: is_retry_def status_forcelist_def)
  then have "adapter_send 0 req ?w1 = (Responds r, w\<lparr>trace := trace w @ [Called req, Sent req]\<rparr>)"
    using assms(1) by (subst adapter_send.simps) (simp add: send_def sends_def)
  then have "attempt_request 0 req w = (Inr r, w\<lparr>trace := trace w @ [Called req, Sent req]\<rparr>)"
    using assms(2) by (simp add: attempt_request_def session_request_def raise_for_status_def)
  then show ?thesis
    unfolding make_request_with_retry_def
    by (subst request_attempts.simps) (simp add: MAX_RETRIES_def)
qed

lemma rfind_append_Cons: "c \<notin> set t \<Longrightarrow> rfind c (b @ c # t) = Some (length b)"
proof -
  assume n: "c \<notin> set t"
  have "takeWhile (\<lambda>x. x \<noteq> c) (rev t @ c # rev b) = rev t"
    using n by (auto simp: takeWhile_tail)
  then show ?thesis by (simp add: rfind_def)
qed

lemma rfind_None: "c \<notin> set s \<Longrightarrow> rfind c s = None"
  by (simp add: rfind_def)

lemma with_suffix_strip:
  assumes "b \<noteq> []" "0x2E \<notin> set b" "0x2F \<notin> set b" "0x2E \<notin> set t" "0x2F \<notin> set t" "t \<noteq> []"
  shows "with_suffix [] (b @ 0x2E # t) = Inr b"
proof -
  have n: "path_name (b @ 0x2E # t) = b @ 0x2E # t"
    using assms by (simp add: path_name_def rfind_None)
  have s: "path_suffix (b @ 0x2E # t) = 0x2E # t"
    using assms by (simp add: path_suffix_def n rfind_append_Cons)
  show ?thesis by (simp add: with_suffix_def n s)
qed

lemma with_suffix_add:
  assumes "b \<noteq> []" "0x2E \<notin> set b" "0x2F \<notin> set b"
  shows "with_suffix ext b = Inr (b @ ext)"
proof -
  have n: "path_name b = b" using assms by (simp add: path_name_def rfind_None)
  have s: "path_suffix b = []" using assms by (simp add: path_suffix_def n rfind_None)
  show ?thesis using assms by (simp add: with_suffix_def n s)
qed

lemma validate_file_size_eq:
  "\<not> faulty w p \<Longrightarrow> files w p \<noteq> None \<Longrightarrow> validate_file_size p w = Inr (valid_file w p)"
  by (auto simp: validate_file_size_def st_size_def valid_file_def)

lemma file_exists_and_valid_target:
  "\<not> faulty w p \<Longrightarrow> files w p \<noteq> None \<Longrightarrow> file_exists_and_valid p w = Inr (valid_file w p)"
  by (auto simp: file_exists_and_valid_def path_exists_def validate_file_size_eq)

lemma alternatives_loop_first:
  assumes "\<forall>p. \<not> faulty w p" and "\<forall>ext \<in> set exts. with_suffix ext base = Inr (base @ ext)"
  shows "alternatives_loop base exts w =
     Inr (case find (\<lambda>p. files w p \<noteq> None) (map (\<lambda>ext. base @ ext) exts) of
            None \<Rightarrow> False | Some p \<Rightarrow> valid_file w p)"
  using assms
  by (induction exts) (auto simp: path_exists_def validate_file_size_eq)

lemma alternatives_loop_True:
  "alternatives_loop base exts w = Inr True \<Longrightarrow>
   \<exists>ext \<in> set exts. \<exists>p. with_suffix ext base = Inr p \<and> valid_file w p"
proof (induction exts)
  case Nil
  then show ?case by simp
next
  case (Cons ext exts)
  then show ?case
    by (auto simp: path_exists_def validate_file_size_def st_size_def valid_file_def
        split: sum.splits if_splits option.splits bool.splits)
qed

lemma file_exists_and_valid_True:
  assumes "file_exists_and_valid p w = Inr True"
  shows "\<exists>q \<in> set (p # alternative_paths p). valid_file w q"
proof (cases "files w p")
  case (Some bytes)
  then have "valid_file w p" using assms
    by (auto simp: file_exists_and_valid_def path_exists_def validate_file_size_def st_size_def
        valid_file_def split: if_splits)
  then show ?thesis by simp
next
  case None
  then obtain base where b: "with_suffix [] p = Inr base"
    and l: "alternatives_loop base alternative_extensions w = Inr True"
    using assms
    by (auto simp: file_exists_and_valid_def path_exists_def split: if_splits sum.splits)
  obtain ext q where "ext \<in> set alternative_extensions" "with_suffix ext base = Inr q" "valid_file w q"
    using alternatives_loop_True [OF l] by blast
  then have "q \<in> set (alternative_paths p)" using b by (force simp: alternative_paths_def)
  then show ?thesis using \<open>valid_file w q\<close> by auto
qed

lemma download_skips:
  assumes "make_request_with_retry (Post_report (report_payload cr cc cn tc tn)) w = (Inr response, w1)"
    and "get_filename_from_response response cc tc w1 = Inr filename"
    and "file_exists_and_valid filename w1 = Inr True"
  shows "download_excel_for_location cr cc cn tc tn w = (True, count_skipped w1)"
  using assms by (simp add: download_excel_for_location_def download_attempt_def)

lemma download_no_skip:
  assumes "make_request_with_retry (Post_report (report_payload cr cc cn tc tn)) w = (Inr response, w1)"
    and "get_filename_from_response response cc tc w1 = Inr filename"
    and "file_exists_and_valid filename w1 \<noteq> Inr True"
  shows "skipped (stats (snd (download_excel_for_location cr cc cn tc tn w))) = skipped (stats w)"
proof -
  have s1: "stats w1 = stats w" using make_request_store [OF assms(1)] by (simp add: same_store_def)
  show ?thesis
  proof (cases "file_exists_and_valid filename w1")
    case (Inl e)
    then show ?thesis using assms s1
      by (simp add: download_excel_for_location_def download_attempt_def count_error_def)
  next
    case (Inr v)
    then have v: "v = False" using assms(3) by simp
    obtain wr w2 where wr: "write_response filename response w1 = (wr, w2)"
      by (cases "write_response filename response w1")
    have s2: "stats w2 = stats w" using write_response_stats [OF wr] s1 by simp
    show ?thesis using assms(1,2) Inr v wr s2
      by (cases wr)
        (simp_all add: download_excel_for_location_def download_attempt_def count_error_def
          count_downloaded_def)
  qed
qed

text \<open>
  Claim C3, amended.  Let the request of a task succeed, the file name be resolved and no
  file operation fail.  If the target path holds a file of at least 512 bytes, or if the
  target path holds no file, its base name has neither dot nor slash, and the first
  existing file among the base name with \<open>.html\<close>, \<open>.xls\<close> and \<open>.xlsx\<close> has at least 512
  bytes, then the task records \<open>Skipped\<close> and returns success, and the files are as
  before.  The skip is recorded only if the target path or one of the alternative paths
  holds a file of at least 512 bytes: smaller files do not trigger it.
\<close>

theorem skip_valid_file:
  assumes "make_request_with_retry (Post_report (report_payload cr cc cn tc tn)) w = (Inr response, w1)"
    and "get_filename_from_response response cc tc w1 = Inr filename"
  shows "(\<not> faulty w filename \<and> valid_file w filename \<longrightarrow>
            download_excel_for_location cr cc cn tc tn w = (True, count_skipped w1)) \<and>
         (\<forall>b ext. filename = b @ ext \<and> ext \<in> {ustr ''.html'', ustr ''.xls''} \<and>
              b \<noteq> [] \<and> 0x2E \<notin> set b \<and> 0x2F \<notin> set b \<and>
              (\<forall>p. \<not> faulty w p) \<and> files w filename = None \<and>
              (\<exists>p. find (\<lambda>p. files w p \<noteq> None)
                      [b @ ustr ''.html'', b @ ustr ''.xls'', b @ ustr ''.xlsx''] = Some p \<and>
                   valid_file w p) \<longrightarrow>
            download_excel_for_location cr cc cn tc tn w = (True, count_skipped w1)) \<and>
         files (count_skipped w1) = files w \<and>
         stats (count_skipped w1) = (stats w)\<lparr>skipped := skipped (stats w) + 1\<rparr> \<and>
         (skipped (stats (snd (download_excel_for_location cr cc cn tc tn w))) \<noteq> skipped (stats w) \<longrightarrow>
            (\<exists>p \<in> set (filename # alternative_paths filename). valid_file w p))"
proof -
  have st: "same_store w w1" using make_request_store [OF assms(1)] .
  then have fs: "files w1 = files w" and fa: "faulty w1 = faulty w" and ss: "stats w1 = stats w"
    by (simp_all add: same_store_def)
  have vf: "\<And>p. valid_file w1 p = valid_file w p" by (simp add: valid_file_def fs)
  have A: "\<not> faulty w filename \<and> valid_file w filename \<longrightarrow>
            download_excel_for_location cr cc cn tc tn w = (True, count_skipped w1)"
  proof
    assume h: "\<not> faulty w filename \<and> valid_file w filename"
    then have "files w1 filename \<noteq> None" by (auto simp: valid_file_def fs split: option.splits)
    then have "file_exists_and_valid filename w1 = Inr True"
      using h file_exists_and_valid_target [of w1 filename] by (simp add: fa vf)
    then show "download_excel_for_location cr cc cn tc tn w = (True, count_skipped w1)"
      using download_skips [OF assms] by simp
  qed
  have B: "\<forall>b ext. filename = b @ ext \<and> ext \<in> {ustr ''.html'', ustr ''.xls''} \<and>
              b \<noteq> [] \<and> 0x2E \<notin> set b \<and> 0x2F \<notin> set b \<and>
              (\<forall>p. \<not> faulty w p) \<and> files w filename = None \<and>
              (\<exists>p. find (\<lambda>p. files w p \<noteq> None)
                      [b @ ustr ''.html'', b @ ustr ''.xls'', b @ ustr ''.xlsx''] = Some p \<and>
                   valid_file w p) \<longrightarrow>
            download_excel_for_location cr cc cn tc tn w = (True, count_skipped w1)"
  proof (intro allI impI)
    fix b ext
    assume h: "filename = b @ ext \<and> ext \<in> {ustr ''.html'', ustr ''.xls''} \<and>
              b \<noteq> [] \<and> 0x2E \<notin> set b \<and> 0x2F \<notin> set b \<and>
              (\<forall>p. \<not> faulty w p) \<and> files w filename = None \<and>
              (\<exists>p. find (\<lambda>p. files w p \<noteq> None)
                      [b @ ustr ''.html'', b @ ustr ''.xls'', b @ ustr ''.xlsx''] = Some p \<and>
                   valid_file w p)"
    then obtain t where t: "ext = 0x2E # t" "0x2E \<notin> set t" "0x2F \<notin> set t" "t \<noteq> []"
      by (auto simp: ustr_def)
    have base: "with_suffix [] filename = Inr b"
      using h t with_suffix_strip [of b t] by simp
    have alts: "\<forall>e \<in> set alternative_extensions. with_suffix e b = Inr (b @ e)"
      using h with_suffix_add [of b] by simp
    have nf: "\<forall>p. \<not> faulty w1 p" using h fa by simp
    obtain p where p: "find (\<lambda>p. files w p \<noteq> None)
                      [b @ ustr ''.html'', b @ ustr ''.xls'', b @ ustr ''.xlsx''] = Some p"
      and vp: "valid_file w p" using h by blast
    have m: "map (\<lambda>e. b @ e) alternative_extensions =
        [b @ ustr ''.html'', b @ ustr ''.xls'', b @ ustr ''.xlsx'']"
      by (simp add: alternative_extensions_def)
    have "alternatives_loop b alternative_extensions w1 =
       Inr (case find (\<lambda>p. files w1 p \<noteq> None) (map (\<lambda>e. b @ e) alternative_extensions) of
              None \<Rightarrow> False | Some p \<Rightarrow> valid_file w1 p)"
      using alternatives_loop_first [OF nf alts] .
    then have "alternatives_loop b alternative_extensions w1 = Inr True"
      unfolding m fs p using vp by (simp add: vf)
    moreover have "files w1 filename = None" "\<not> faulty w1 filename" using h fs fa by auto
    ultimately have "file_exists_and_valid filename w1 = Inr True"
      using base by (simp add: file_exists_and_valid_def path_exists_def)
    then show "download_excel_for_location cr cc cn tc tn w = (True, count_skipped w1)"
      using download_skips [OF assms] by simp
  qed
  have C: "files (count_skipped w1) = files w"
    "stats (count_skipped w1) = (stats w)\<lparr>skipped := skipped (stats w) + 1\<rparr>"
    by (simp_all add: count_skipped_def fs ss)
  have D: "skipped (stats (snd (download_excel_for_location cr cc cn tc tn w))) \<noteq> skipped (stats w) \<longrightarrow>
            (\<exists>p \<in> set (filename # alternative_paths filename). valid_file w p)"
  proof
    assume "skipped (stats (snd (download_excel_for_location cr cc cn tc tn w))) \<noteq> skipped (stats w)"
    then have "file_exists_and_valid filename w1 = Inr True"
      using download_no_skip [OF assms] by blast
    then show "\<exists>p \<in> set (filename # alternative_paths filename). valid_file w p"
      using file_exists_and_valid_True [of filename w1] by (simp add: vf)
  qed
  show ?thesis using A B C D by blast
qed

lemma download_fresh:
  assumes "make_request_with_retry (Post_report (report_payload cr cc cn tc tn)) w = (Inr response, w1)"
    and "get_filename_from_response response cc tc w1 = Inr filename"
    and "file_exists_and_valid filename w1 = Inr False"
    and "\<not> faulty w1 filename" and "body_ok response" and "512 \<le> length (body response)"
  shows "download_excel_for_location cr cc cn tc tn w =
     (True, count_downloaded (length (body response))
        (w1\<lparr>files := (files w1)(filename \<mapsto> body response)\<rparr>))"
  using assms
  by (simp add: download_excel_for_location_def download_attempt_def write_response_def
      validate_downloaded_content_def path_exists_def st_size_def)

lemma detect_excel_header:
  "detect_content_type (example_response (Some (ustr ''application/vnd.ms-excel'')) cd bytes) =
     Inr Excel"
proof -
  have l: "lower (ustr ''application/vnd.ms-excel'') = ustr ''application/vnd.ms-excel''"
    by (simp add: lower_def lower_char_def ustr_def)
  have "contains (ustr ''application/vnd.ms-excel'') (ustr ''application/vnd.ms-excel'')"
    "\<not> contains (ustr ''text/html'') (ustr ''application/vnd.ms-excel'')"
    "\<not> contains (ustr ''application/html'') (ustr ''application/vnd.ms-excel'')"
    by (simp_all add: ustr_def starts_with_def)
  then show ?thesis by (simp add: detect_content_type_def example_response_sel l)
qed

lemma report_request:
  "make_request_with_retry req (example_world (answering report_response) fs) =
     (Inr report_response,
      (example_world (answering report_response) fs)\<lparr>trace := [Called req, Sent req]\<rparr>)"
  using request_first_success [of "example_world (answering report_response) fs" req report_response]
  by (simp add: example_world_def answering_def report_response_def example_response_def
      sends_def)

lemma report_filename:
  "get_filename_from_response report_response cc tc w = Inr (ustr ''report.xls'')"
  by (simp add: report_response_def get_filename_resolved_base [OF detect_excel_header]
      resolved_base_report extension_def ustr_append)

text \<open>
  Claim C3 as it is stated promises the skip whenever a sibling path holds a file of at
  least 512 bytes.  Here \<open>report.html\<close> holds 600 bytes, but the target \<open>report.xls\<close> exists
  with 100 bytes: the code judges the target only, records no skip, downloads and writes
  the target anew.
\<close>

theorem sibling_does_not_skip_counterexample:
  "valid_file (example_world (answering report_response) small_target_files) (ustr ''report.html'') \<and>
   fst (download_excel_for_location example_crawler (JStr (ustr ''11'')) (JStr (ustr ''A''))
          (JStr (ustr ''1101'')) (JStr (ustr ''B''))
          (example_world (answering report_response) small_target_files)) \<and>
   stats (snd (download_excel_for_location example_crawler (JStr (ustr ''11'')) (JStr (ustr ''A''))
          (JStr (ustr ''1101'')) (JStr (ustr ''B''))
          (example_world (answering report_response) small_target_files))) =
     \<lparr>downloaded = 1, errors = 0, skipped = 0, total_size = 600\<rparr> \<and>
   files (snd (download_excel_for_location example_crawler (JStr (ustr ''11'')) (JStr (ustr ''A''))
          (JStr (ustr ''1101'')) (JStr (ustr ''B''))
          (example_world (answering report_response) small_target_files))) (ustr ''report.xls'') =
     Some (replicate 600 (CHR ''y''))"
proof -
  let ?w = "example_world (answering report_response) small_target_files"
  let ?p = "Post_report (report_payload example_crawler (JStr (ustr ''11'')) (JStr (ustr ''A''))
          (JStr (ustr ''1101'')) (JStr (ustr ''B'')))"
  let ?w1 = "?w\<lparr>trace := [Called ?p, Sent ?p]\<rparr>"
  have d: "ustr ''report.html'' \<noteq> ustr ''report.xls''" by (simp add: ustr_def)
  have v: "valid_file ?w (ustr ''report.html'')"
    using d by (simp add: valid_file_def example_world_def small_target_files_def)
  have m: "make_request_with_retry ?p ?w = (Inr report_response, ?w1)" by (rule report_request)
  have f: "get_filename_from_response report_response (JStr (ustr ''11'')) (JStr (ustr ''1101'')) ?w1 =
      Inr (ustr ''report.xls'')" by (rule report_filename)
  have nf: "\<not> faulty ?w1 (ustr ''report.xls'')" by (simp add: example_world_def)
  have d': "ustr ''report.xls'' \<noteq> ustr ''report.html''" using d by simp
  have ex: "files ?w1 (ustr ''report.xls'') \<noteq> None"
    using d' by (simp add: example_world_def small_target_files_def)
  have "\<not> valid_file ?w1 (ustr ''report.xls'')"
    using d' by (simp add: valid_file_def example_world_def small_target_files_def)
  then have e: "file_exists_and_valid (ustr ''report.xls'') ?w1 = Inr False"
    using file_exists_and_valid_target [OF nf ex] by simp
  have b: "body_ok report_response" "length (body report_response) = 600"
    "body report_response = replicate 600 (CHR ''y'')"
    by (simp_all add: report_response_def example_response_sel)
  have r: "download_excel_for_location example_crawler (JStr (ustr ''11'')) (JStr (ustr ''A''))
          (JStr (ustr ''1101'')) (JStr (ustr ''B'')) ?w =
     (True, count_downloaded 600 (?w1\<lparr>files := (files ?w1)(ustr ''report.xls'' \<mapsto> replicate 600 (CHR ''y''))\<rparr>))"
    using download_fresh [OF m f e nf b(1)] b(2,3) by simp
  show ?thesis unfolding r using v by (simp add: count_downloaded_def example_world_def)
qed

text \<open>A task whose target \<open>report.xls\<close> holds 600 bytes: skipped, nothing written.\<close>

theorem skip_valid_file_witness:
  "make_request_with_retry
     (Post_report (report_payload example_crawler (JStr (ustr ''11'')) (JStr (ustr ''A''))
        (JStr (ustr ''1101'')) (JStr (ustr ''B''))))
     (example_world (answering report_response) valid_target_files) =
     (Inr report_response,
      (example_world (answering report_response) valid_target_files)
        \<lparr>trace :=
           [Called (Post_report (report_payload example_crawler (JStr (ustr ''11''))
              (JStr (ustr ''A'')) (JStr (ustr ''1101'')) (JStr (ustr ''B'')))),
            Sent (Post_report (report_payload example_crawler (JStr (ustr ''11''))
              (JStr (ustr ''A'')) (JStr (ustr ''1101'')) (JStr (ustr ''B''))))]\<rparr>) \<and>
   get_filename_from_response report_response (JStr (ustr ''11'')) (JStr (ustr ''1101''))
     ((example_world (answering report_response) valid_target_files)
        \<lparr>trace :=
           [Called (Post_report (report_payload example_crawler (JStr (ustr ''11''))
              (JStr (ustr ''A'')) (JStr (ustr ''1101'')) (JStr (ustr ''B'')))),
            Sent (Post_report (report_payload example_crawler (JStr (ustr ''11''))
              (JStr (ustr ''A'')) (JStr (ustr ''1101'')) (JStr (ustr ''B''))))]\<rparr>) =
     Inr (ustr ''report.xls'') \<and>
   valid_file (example_world (answering report_response) valid_target_files) (ustr ''report.xls'') \<and>
   fst (download_excel_for_location example_crawler (JStr (ustr ''11'')) (JStr (ustr ''A''))
          (JStr (ustr ''1101'')) (JStr (ustr ''B''))
          (example_world (answering report_response) valid_target_files)) \<and>
   stats (snd (download_excel_for_location example_crawler (JStr (ustr ''11'')) (JStr (ustr ''A''))
          (JStr (ustr ''1101'')) (JStr (ustr ''B''))
          (example_world (answering report_response) valid_target_files))) =
     \<lparr>downloaded = 0, errors = 0, skipped = 1, total_size = 0\<rparr> \<and>
   files (snd (download_excel_for_location example_crawler (JStr (ustr ''11'')) (JStr (ustr ''A''))
          (JStr (ustr ''1101'')) (JStr (ustr ''B''))
          (example_world (answering report_response) valid_target_files))) = valid_target_files"
proof -
  let ?w = "example_world (answering report_response) valid_target_files"
  let ?p = "Post_report (report_payload example_crawler (JStr (ustr ''11'')) (JStr (ustr ''A''))
          (JStr (ustr ''1101'')) (JStr (ustr ''B'')))"
  let ?w1 = "?w\<lparr>trace := [Called ?p, Sent ?p]\<rparr>"
  have m: "make_request_with_retry ?p ?w = (Inr report_response, ?w1)" by (rule report_request)
  have f: "get_filename_from_response report_response (JStr (ustr ''11'')) (JStr (ustr ''1101'')) ?w1 =
      Inr (ustr ''report.xls'')" by (rule report_filename)
  have v: "valid_file ?w (ustr ''report.xls'')"
    by (simp add: valid_file_def example_world_def valid_target_files_def)
  have nf: "\<not> faulty ?w (ustr ''report.xls'')" by (simp add: example_world_def)
  have r: "download_excel_for_location example_crawler (JStr (ustr ''11'')) (JStr (ustr ''A''))
          (JStr (ustr ''1101'')) (JStr (ustr ''B'')) ?w = (True, count_skipped ?w1)"
    using skip_valid_file [OF m f] v nf by blast
  show ?thesis unfolding r using m f v
    by (simp add: count_skipped_def example_world_def)
qed

lemma answering_request:
  "make_request_with_retry req (example_world (answering (example_response ct cd bytes)) fs) =
     (Inr (example_response ct cd bytes),
      (example_world (answering (example_response ct cd bytes)) fs)
        \<lparr>trace := [Called req, Sent req]\<rparr>)"
  using request_first_success [of "example_world (answering (example_response ct cd bytes)) fs"
      req "example_response ct cd bytes"]
  by (simp add: example_world_def answering_def example_response_def sends_def)

lemma scenario_filename:
  "get_filename_from_response scenario_response (JStr (ustr ''11'')) (JStr (ustr ''1101''))
     ((example_world srv fs)\<lparr>trace := t\<rparr>) =
   Inr (ustr ''election_report_11_1101_1700000000'' @ ustr ''.xls'')"
proof -
  have t: "decimal 1700000000 = ustr ''1700000000''"
    by (simp add: decimal.simps ustr_def)
  show ?thesis
    by (simp add: scenario_response_def get_filename_resolved_base [OF detect_excel_header]
        resolved_base_def example_response_sel fallback_filename_def time_now_def
        example_world_def t extension_def ustr_append)
qed

lemma scenario_not_there:
  "file_exists_and_valid (ustr ''election_report_11_1101_1700000000'' @ ustr ''.xls'')
     ((example_world srv Map.empty)\<lparr>trace := t\<rparr>) = Inr False"
proof -
  let ?b = "ustr ''election_report_11_1101_1700000000''"
  let ?w = "(example_world srv Map.empty)\<lparr>trace := t\<rparr>"
  have b: "?b \<noteq> []" "0x2E \<notin> set ?b" "0x2F \<notin> set ?b" by (simp_all add: ustr_def)
  have x: "ustr ''.xls'' = 0x2E # ustr ''xls''" by (simp add: ustr_def)
  have base: "with_suffix [] (?b @ ustr ''.xls'') = Inr ?b"
    unfolding x using with_suffix_strip [OF b, of "ustr ''xls''"] by (simp add: ustr_def)
  have nf: "\<forall>p. \<not> faulty ?w p" by (simp add: example_world_def)
  have alts: "\<forall>ext \<in> set alternative_extensions. with_suffix ext ?b = Inr (?b @ ext)"
    using with_suffix_add [OF b] by simp
  have "alternatives_loop ?b alternative_extensions ?w = Inr False"
    using alternatives_loop_first [OF nf alts]
    by (simp add: example_world_def alternative_extensions_def)
  then show ?thesis
    using base by (simp add: file_exists_and_valid_def path_exists_def example_world_def)
qed

text \<open>
  The end-to-end scenario of the specification: region 11, sub-region 1101, a spreadsheet
  response of 608 bytes and an empty directory.  The file
  \<open>election_report_11_1101_1700000000.xls\<close> is written and \<open>downloaded\<close> is 1.
\<close>

theorem download_counts_once_witness:
  "fst (download_excel_for_location example_crawler (JStr (ustr ''11'')) (JStr [0xC11C, 0xC6B8])
          (JStr (ustr ''1101'')) (JStr [0xC885, 0xB85C, 0xAD6C])
          (example_world (answering scenario_response) Map.empty)) \<and>
   stats (snd (download_excel_for_location example_crawler (JStr (ustr ''11'')) (JStr [0xC11C, 0xC6B8])
          (JStr (ustr ''1101'')) (JStr [0xC885, 0xB85C, 0xAD6C])
          (example_world (answering scenario_response) Map.empty))) =
     \<lparr>downloaded = 1, errors = 0, skipped = 0, total_size = 608\<rparr> \<and>
   files (snd (download_excel_for_location example_crawler (JStr (ustr ''11'')) (JStr [0xC11C, 0xC6B8])
          (JStr (ustr ''1101'')) (JStr [0xC885, 0xB85C, 0xAD6C])
          (example_world (answering scenario_response) Map.empty)))
     (ustr ''election_report_11_1101_1700000000.xls'') =
     Some (OLE2_header @ replicate 600 (CHR 0x00))"
proof -
  let ?w = "example_world (answering scenario_response) Map.empty"
  let ?p = "Post_report (report_payload example_crawler (JStr (ustr ''11'')) (JStr [0xC11C, 0xC6B8])
          (JStr (ustr ''1101'')) (JStr [0xC885, 0xB85C, 0xAD6C]))"
  let ?w1 = "?w\<lparr>trace := [Called ?p, Sent ?p]\<rparr>"
  let ?n = "ustr ''election_report_11_1101_1700000000'' @ ustr ''.xls''"
  have m: "make_request_with_retry ?p ?w = (Inr scenario_response, ?w1)"
    unfolding scenario_response_def by (rule answering_request)
  have f: "get_filename_from_response scenario_response (JStr (ustr ''11'')) (JStr (ustr ''1101'')) ?w1 =
      Inr ?n" by (rule scenario_filename)
  have e: "file_exists_and_valid ?n ?w1 = Inr False" by (rule scenario_not_there)
  have nf: "\<not> faulty ?w1 ?n" by (simp add: example_world_def)
  have b: "body_ok scenario_response" "length (body scenario_response) = 608"
    "body scenario_response = OLE2_header @ replicate 600 (CHR 0x00)"
    by (simp_all add: scenario_response_def example_response_sel OLE2_header_def)
  have r: "download_excel_for_location example_crawler (JStr (ustr ''11'')) (JStr [0xC11C, 0xC6B8])
          (JStr (ustr ''1101'')) (JStr [0xC885, 0xB85C, 0xAD6C]) ?w =
     (True, count_downloaded 608 (?w1\<lparr>files := (files ?w1)(?n \<mapsto> OLE2_header @ replicate 600 (CHR 0x00))\<rparr>))"
    using download_fresh [OF m f e nf b(1)] b(2,3) by simp
  have s: "stats ?w = \<lparr>downloaded = 0, errors = 0, skipped = 0, total_size = 0\<rparr>"
    by (simp add: example_world_def)
  show ?thesis
    using download_counts_once [of example_crawler "JStr (ustr ''11'')" "JStr [0xC11C, 0xC6B8]"
        "JStr (ustr ''1101'')" "JStr [0xC885, 0xB85C, 0xAD6C]" ?w]
    unfolding r s by (simp add: count_downloaded_def example_world_def ustr_append)
qed

section \<open>The crawl\<close>

lemma entry_page_regions:
  "get_city_town_codes (example_world (entry_page_only entry_page) Map.empty) =
     (Inr ([\<lparr>code = JStr (ustr ''11''), name = JStr [0xC11C, 0xC6B8]\<rparr>], []),
      (example_world (entry_page_only entry_page) Map.empty)
        \<lparr>trace := [Called Get_init_page, Sent Get_init_page]\<rparr>)"
proof -
  let ?w = "example_world (entry_page_only entry_page) Map.empty"
  have "make_request_with_retry Get_init_page ?w =
      (Inr entry_page, ?w\<lparr>trace := trace ?w @ [Called Get_init_page, Sent Get_init_page]\<rparr>)"
    by (rule request_first_success)
      (simp_all add: example_world_def entry_page_only_def entry_page_def)
  moreover have "select_codes (city_select (soup entry_page)) =
      [\<lparr>code = JStr (ustr ''11''), name = JStr [0xC11C, 0xC6B8]\<rparr>]"
    by (simp add: select_codes_def entry_page_def List.map_filter_simps ustr_def strip_def
        isspace_def)
  moreover have "select_codes (town_select (soup entry_page)) = []"
    by (simp add: select_codes_def entry_page_def)
  ultimately show ?thesis by (simp add: get_city_town_codes_def example_world_def)
qed

lemma lookup_refused:
  assumes "server w = entry_page_only r"
  shows "fst (get_town_codes_for_city cr city_code w) =
     Inl (ElectionCrawlerError
       (Some (RequestException (TransportFailure (ustr ''connection refused'')))))"
proof -
  let ?req = "Get_town_codes (election_id cr) city_code"
  have "fst (make_request_with_retry ?req w) =
      Inl (ElectionCrawlerError
        (Some (RequestException (TransportFailure (ustr ''connection refused'')))))"
    by (rule retry_same_failure)
      (simp_all add: assms entry_page_only_def is_RequestException_def)
  then show ?thesis
    by (auto simp: get_town_codes_for_city_def is_RequestException_def is_ValueError_def
        split: prod.splits sum.splits)
qed

text \<open>
  Claim C8 says that only the failure to list the regions leaves the run.  Here the
  regions are listed, and the lookup of the sub-regions of region 11 fails on every
  attempt: the \<^verbatim>\<open>ElectionCrawlerError\<close> of the lookup leaves \<^verbatim>\<open>get_town_codes_for_city\<close>,
  the loop over the cities and \<^verbatim>\<open>crawl_all_locations\<close>.
\<close>

theorem crawl_aborts_on_lookup_failure:
  "fst (get_city_town_codes (example_world (entry_page_only entry_page) Map.empty)) =
     Inr ([\<lparr>code = JStr (ustr ''11''), name = JStr [0xC11C, 0xC6B8]\<rparr>], []) \<and>
   fst (crawl_all_locations example_crawler (example_world (entry_page_only entry_page) Map.empty)) =
     Inl (ElectionCrawlerError
       (Some (RequestException (TransportFailure (ustr ''connection refused'')))))"
proof -
  let ?w = "example_world (entry_page_only entry_page) Map.empty"
  let ?w1 = "?w\<lparr>trace := [Called Get_init_page, Sent Get_init_page]\<rparr>"
  have s: "server ?w1 = entry_page_only entry_page" by (simp add: example_world_def)
  have l: "fst (get_town_codes_for_city example_crawler (JStr (ustr ''11'')) ?w1) =
     Inl (ElectionCrawlerError
       (Some (RequestException (TransportFailure (ustr ''connection refused'')))))"
    using lookup_refused [OF s] .
  have "fst (crawl_sequential example_crawler
        [\<lparr>code = JStr (ustr ''11''), name = JStr [0xC11C, 0xC6B8]\<rparr>] ?w1) =
     Inl (ElectionCrawlerError
       (Some (RequestException (TransportFailure (ustr ''connection refused'')))))"
  proof -
    obtain res w2 where g: "get_town_codes_for_city example_crawler (JStr (ustr ''11'')) ?w1 = (res, w2)"
      by (cases "get_town_codes_for_city example_crawler (JStr (ustr ''11'')) ?w1")
    then have "res = Inl (ElectionCrawlerError
       (Some (RequestException (TransportFailure (ustr ''connection refused'')))))"
      using l by simp
    then show ?thesis using g by (simp add: crawl_sequential_def)
  qed
  then show ?thesis by (simp add: crawl_all_locations_def entry_page_regions)
qed

text \<open>
  The first part of the claim holds: an exception inside a task is caught and counted.
  The task has no exception to hand on: its result is a truth value.
\<close>

lemma download_request_failure:
  "make_request_with_retry (Post_report (report_payload cr cc cn tc tn)) w = (Inl e, w1) \<Longrightarrow>
   download_excel_for_location cr cc cn tc tn w = (False, count_error w1)"
  by (simp add: download_excel_for_location_def download_attempt_def)

end
